theory Spec2Isabelle
  imports Main
begin

section \<open>The workflow orchestrator \<^verbatim>\<open>main.py\<close>\<close>

text \<open>
  The orchestrator validates a case name, then walks a list of stage names; each stage
  function checks the investigation directory and runs external scripts through
  \<^verbatim>\<open>run_script\<close>. Exceptions are values of the type \<open>error\<close>, returned on the left of
  a sum. The file system and the child processes are outside the program: they are the
  operations of an \<open>os\<close> record over an abstract world \<open>'w\<close>, so that every theorem holds
  for every file system and every behaviour of the scripts.
\<close>

subsection \<open>Exceptions\<close>

text \<open>The message of each exception is kept as a tag naming the \<^verbatim>\<open>raise\<close> it comes from.\<close>

datatype case_name_msg = Cannot_be_empty | Invalid_characters | Path_traversal

datatype setup_msg = Setup_invalid_case_name case_name_msg | Failed_to_create_directories

datatype stage_msg = Cannot_run string | Reported_failure string

datatype unexpected = Nonzero_return_code int | Other_exception

datatype script_msg =
    Target_script_not_found
  | Execution_error_not_found
  | Script_timed_out
  | Unexpected_error unexpected

datatype error =
    InvalidCaseNameError case_name_msg
  | SetupError setup_msg
  | StageError stage_msg
  | ScriptExecutionError script_msg
  | OrchestratorError string

subsection \<open>Strings and paths\<close>

text \<open>
  Python's \<^verbatim>\<open>sub in s\<close>, \<^verbatim>\<open>s.endswith(suf)\<close>, \<^verbatim>\<open>s.split(sep)\<close> for a one-character
  separator, and \<^verbatim>\<open>os.path.join\<close> of two components on a POSIX system.
\<close>

definition startswith :: "string \<Rightarrow> string \<Rightarrow> bool" where
  "startswith s pre = (take (length pre) s = pre)"

definition endswith :: "string \<Rightarrow> string \<Rightarrow> bool" where
  "endswith s suf = (length suf \<le> length s \<and> drop (length s - length suf) s = suf)"

fun str_contains :: "string \<Rightarrow> string \<Rightarrow> bool" where
  "str_contains sub [] = (sub = [])"
| "str_contains sub (c # cs) = (startswith (c # cs) sub \<or> str_contains sub cs)"

fun str_split :: "char \<Rightarrow> string \<Rightarrow> string list" where
  "str_split sep [] = [[]]"
| "str_split sep (c # cs) =
     (if c = sep then [] # str_split sep cs
      else (case str_split sep cs of [] \<Rightarrow> [[c]] | p # ps \<Rightarrow> (c # p) # ps))"

definition os_path_join :: "string \<Rightarrow> string \<Rightarrow> string" where
  "os_path_join a b =
     (if startswith b ''/'' then b
      else if a = [] \<or> endswith a ''/'' then a @ b
      else a @ ''/'' @ b)"

subsection \<open>Case names\<close>

text \<open>
  The character class \<^verbatim>\<open>[a-zA-Z0-9_.-]\<close>, and \<^verbatim>\<open>re.match\<close> of
  \<^verbatim>\<open>^[a-zA-Z0-9_.-]+$\<close>: one or more characters of the class from the start of the
  string, then the end of the string. In Python \<^verbatim>\<open>$\<close> also matches just before a
  newline that is the last character, and the model keeps that.
\<close>

definition allowed_char :: "char \<Rightarrow> bool" where
  "allowed_char c =
     (let n = (of_char c :: nat)
      in (97 \<le> n \<and> n \<le> 122) \<or> (65 \<le> n \<and> n \<le> 90) \<or> (48 \<le> n \<and> n \<le> 57)
         \<or> c = CHR ''_'' \<or> c = CHR ''.'' \<or> c = CHR ''-'')"

definition re_match_case_name :: "string \<Rightarrow> bool" where
  "re_match_case_name s =
     (let body = takeWhile allowed_char s; rest = dropWhile allowed_char s
      in body \<noteq> [] \<and> (rest = [] \<or> rest = [CHR 0x0A]))"

definition validate_case_name :: "string \<Rightarrow> error + bool" where
  "validate_case_name case_name =
     (if case_name = [] then Inl (InvalidCaseNameError Cannot_be_empty)
      else if \<not> re_match_case_name case_name then Inl (InvalidCaseNameError Invalid_characters)
      else if str_contains ''..'' case_name then Inl (InvalidCaseNameError Path_traversal)
      else Inr True)"

subsection \<open>The operating system, the run state and the log\<close>

text \<open>
  What \<^verbatim>\<open>subprocess.Popen\<close> followed by \<^verbatim>\<open>communicate(timeout)\<close> does: the process
  terminates with a return code and its two output texts, or \<^verbatim>\<open>Popen\<close> raises
  \<^verbatim>\<open>FileNotFoundError\<close>, or the timeout expires (the texts are then those collected after
  \<^verbatim>\<open>kill\<close>), or anything else is raised.
\<close>

datatype proc_result =
    Terminated int string string
  | Raised_FileNotFoundError
  | Raised_TimeoutExpired string string
  | Raised_other_exception

text \<open>
  \<open>os_makedirs\<close> is \<^verbatim>\<open>os.makedirs(path, exist_ok=True)\<close>; its \<open>False\<close> is an
  \<^verbatim>\<open>OSError\<close>. \<open>popen_communicate\<close> takes the command and the timeout.
\<close>

record 'w os =
  PROJECT_ROOT :: string
  sys_executable :: string
  os_path_isdir :: "string \<Rightarrow> 'w \<Rightarrow> bool"
  os_path_isfile :: "string \<Rightarrow> 'w \<Rightarrow> bool"
  os_makedirs :: "string \<Rightarrow> 'w \<Rightarrow> bool \<times> 'w"
  popen_communicate :: "string list \<Rightarrow> int \<Rightarrow> 'w \<Rightarrow> proc_result \<times> 'w"

definition INVESTIGATIONS_DIR :: "'w os \<Rightarrow> string" where
  "INVESTIGATIONS_DIR os = os_path_join (PROJECT_ROOT os) ''investigations''"

definition SCRIPTS_DIR :: "'w os \<Rightarrow> string" where
  "SCRIPTS_DIR os = os_path_join (PROJECT_ROOT os) ''scripts''"

text \<open>
  The log lines, one constructor for each \<^verbatim>\<open>logging\<close> call that \<^verbatim>\<open>main\<close> can
  reach at level INFO or above, with the values the line is formatted from (the
  formatting itself is left out).
\<close>

datatype log_line =
    Info_separator
  | Info_initializing string
  | Info_requested_stages "string list"
  | Info_global_timeout int
  | Error_workflow_halted error
  | Info_processing_all
  | Warning_skipping_stage string
  | Info_starting_stage string
  | Info_stage_completed string
  | Error_stage_failed string error
  | Error_unknown_stage string
  | Info_workflow_succeeded string
  | Error_workflow_failed string
  | Error_review_log_file
  | Error_exception error
  | Error_investigation_not_found string
  | Error_please_ensure string
  | Error_target_script_not_found string
  | Info_executing_script "string list" int
  | Info_output string
  | Error_error_output int string
  | Info_stderr_output string
  | Error_script_failed string int
  | Info_script_completed string
  | Error_execution_error string
  | Error_timeout_expired string int
  | Info_final_stdout string
  | Error_final_stderr string
  | Error_unexpected string unexpected
  | Info_stage_banner nat string "string option"
  | Info_ensuring_base_directory string
  | Info_base_directory_ensured string
  | Info_subdirectories_ensured string
  | Error_failed_to_create string
  | Info_setup_completed string
  | Warning_no_acquisition_scripts "string option"
  | Warning_no_datashare_actions "string option"
  | Info_package_completed string

text \<open>
  The state a run threads through: the world outside and the log, and two lists that are
  bookkeeping of the model. \<open>popen_calls\<close> holds the commands
  \<^verbatim>\<open>subprocess.Popen\<close> was called with, in order: an entry is added exactly where the
  source calls \<^verbatim>\<open>Popen\<close>. \<open>run_script_calls\<close> holds, for every call of
  \<^verbatim>\<open>run_script\<close> in order, the relative script path it was given and whether it
  returned (\<open>True\<close>) or raised (\<open>False\<close>): an entry is added where the call ends.
\<close>

record 'w state =
  world :: 'w
  log_lines :: "log_line list"
  popen_calls :: "string list list"
  run_script_calls :: "(string \<times> bool) list"

definition logging :: "log_line \<Rightarrow> 'w state \<Rightarrow> 'w state" where
  "logging l st = st\<lparr>log_lines := log_lines st @ [l]\<rparr>"

definition run_script_ends ::
  "string \<Rightarrow> (error + bool) \<times> 'w state \<Rightarrow> (error + bool) \<times> 'w state" where
  "run_script_ends script_path_relative res =
     (fst res,
      (snd res)\<lparr>run_script_calls :=
                  run_script_calls (snd res) @ [(script_path_relative, \<not> isl (fst res))]\<rparr>)"

definition logging_if :: "bool \<Rightarrow> log_line \<Rightarrow> 'w state \<Rightarrow> 'w state" where
  "logging_if b l st = (if b then logging l st else st)"

subsection \<open>\<^verbatim>\<open>validate_investigation_exists\<close> and \<^verbatim>\<open>run_script\<close>\<close>

definition validate_investigation_exists ::
  "'w os \<Rightarrow> string \<Rightarrow> 'w state \<Rightarrow> bool \<times> 'w state" where
  "validate_investigation_exists os case_name st =
     (case validate_case_name case_name of
        Inl e \<Rightarrow> (False, logging (Error_exception e) st)
      | Inr _ \<Rightarrow>
          let investigation_path = os_path_join (INVESTIGATIONS_DIR os) case_name
          in if \<not> os_path_isdir os investigation_path (world st)
             then (False, logging (Error_please_ensure case_name)
                            (logging (Error_investigation_not_found investigation_path) st))
             else (True, st))"

text \<open>
  \<^verbatim>\<open>run_script\<close> returns \<open>True\<close> or raises \<^verbatim>\<open>ScriptExecutionError\<close>. The
  \<^verbatim>\<open>raise\<close> for a non-zero return code stands inside the \<^verbatim>\<open>try\<close> block, so the
  last handler (\<^verbatim>\<open>except Exception\<close>) catches it, logs it again and raises the
  \<^verbatim>\<open>ScriptExecutionError\<close> of an unexpected error from it.
\<close>

definition run_script ::
  "'w os \<Rightarrow> string \<Rightarrow> string \<Rightarrow> int \<Rightarrow> string list \<Rightarrow> 'w state
     \<Rightarrow> (error + bool) \<times> 'w state" where
  "run_script os script_path_relative case_name script_timeout args st =
     run_script_ends script_path_relative
     (let full_script_path = os_path_join (SCRIPTS_DIR os) script_path_relative
      in if \<not> os_path_isfile os full_script_path (world st)
         then (Inl (ScriptExecutionError Target_script_not_found),
               logging (Error_target_script_not_found full_script_path) st)
         else
           let command =
                 (if endswith full_script_path ''.py''
                  then [sys_executable os, full_script_path, case_name] @ args
                  else [full_script_path, case_name] @ args);
               st1 = logging (Info_executing_script command script_timeout) st;
               (r, w) = popen_communicate os command script_timeout (world st1);
               st2 = st1\<lparr>world := w, popen_calls := popen_calls st1 @ [command]\<rparr>
           in case r of
                Terminated returncode stdout stderr \<Rightarrow>
                  let st3 = logging_if (stdout \<noteq> []) (Info_output stdout) st2;
                      st4 = logging_if (stderr \<noteq> [])
                              (if returncode \<noteq> 0 then Error_error_output returncode stderr
                               else Info_stderr_output stderr) st3
                  in if returncode \<noteq> 0
                     then (Inl (ScriptExecutionError
                                  (Unexpected_error (Nonzero_return_code returncode))),
                           logging (Error_unexpected script_path_relative
                                      (Nonzero_return_code returncode))
                             (logging (Error_script_failed script_path_relative returncode) st4))
                     else (Inr True, logging (Info_script_completed script_path_relative) st4)
              | Raised_FileNotFoundError \<Rightarrow>
                  (Inl (ScriptExecutionError Execution_error_not_found),
                   logging (Error_execution_error full_script_path) st2)
              | Raised_TimeoutExpired stdout stderr \<Rightarrow>
                  (Inl (ScriptExecutionError Script_timed_out),
                   logging_if (stderr \<noteq> []) (Error_final_stderr stderr)
                     (logging_if (stdout \<noteq> []) (Info_final_stdout stdout)
                        (logging (Error_timeout_expired script_path_relative script_timeout)
                           st2)))
              | Raised_other_exception \<Rightarrow>
                  (Inl (ScriptExecutionError (Unexpected_error Other_exception)),
                   logging (Error_unexpected script_path_relative Other_exception) st2))"

subsection \<open>The stage functions\<close>

text \<open>
  The directories \<^verbatim>\<open>stage_0_setup_investigation\<close> creates under the investigation
  directory. Each relative path is split at \<^verbatim>\<open>/\<close> and joined to the investigation
  path part by part; the loop stops at the first \<^verbatim>\<open>OSError\<close>.
\<close>

definition standard_subdirs :: "string list" where
  "standard_subdirs =
     [''00_source_documents/irs_990s/pdfs'', ''00_source_documents/irs_990s/xmls'',
      ''00_source_documents/corporate_filings'', ''00_source_documents/property_records_raw'',
      ''00_source_documents/legal_documents'', ''00_source_documents/campaign_finance'',
      ''00_source_documents/lobbying_records'',
      ''00_source_documents/media_clippings_and_web_archives'',
      ''00_source_documents/other_public_records'',
      ''01_datashare_outputs/extracted_text'', ''01_datashare_outputs/ner_results'',
      ''02_parsed_and_structured_data/irs_990_parsed'',
      ''02_parsed_and_structured_data/corporate_parsed'',
      ''02_parsed_and_structured_data/property_parsed'',
      ''02_parsed_and_structured_data/campaign_finance_parsed'',
      ''02_parsed_and_structured_data/lobbying_parsed'',
      ''03_analysis_and_reports'',
      ''04_findings_and_narrative'']"

fun make_subdirs :: "'w os \<Rightarrow> string \<Rightarrow> string list \<Rightarrow> 'w state \<Rightarrow> bool \<times> 'w state" where
  "make_subdirs os investigation_path [] st = (True, st)"
| "make_subdirs os investigation_path (sub_dir_path_relative # rest) st =
     (let full_sub_dir_path =
            foldl os_path_join investigation_path (str_split CHR ''/'' sub_dir_path_relative);
          (created, w) = os_makedirs os full_sub_dir_path (world st)
      in if created then make_subdirs os investigation_path rest (st\<lparr>world := w\<rparr>)
         else (False, st\<lparr>world := w\<rparr>))"

definition stage_0_setup_investigation ::
  "'w os \<Rightarrow> string \<Rightarrow> int \<Rightarrow> 'w state \<Rightarrow> (error + bool) \<times> 'w state" where
  "stage_0_setup_investigation os case_name script_timeout st =
     (let st0 = logging (Info_stage_banner 0 case_name None) st
      in case validate_case_name case_name of
           Inl e \<Rightarrow>
             (Inl (SetupError (Setup_invalid_case_name
                     (case e of InvalidCaseNameError m \<Rightarrow> m | _ \<Rightarrow> Invalid_characters))),
              logging (Error_exception e) st0)
         | Inr _ \<Rightarrow>
             let investigation_path = os_path_join (INVESTIGATIONS_DIR os) case_name;
                 st1 = logging (Info_ensuring_base_directory investigation_path) st0;
                 (created, w) = os_makedirs os investigation_path (world st1);
                 st2 = st1\<lparr>world := w\<rparr>
             in if \<not> created
                then (Inl (SetupError Failed_to_create_directories),
                      logging (Error_failed_to_create case_name) st2)
                else
                  let (all_created, st3) =
                        make_subdirs os investigation_path standard_subdirs
                          (logging (Info_base_directory_ensured investigation_path) st2)
                  in if \<not> all_created
                     then (Inl (SetupError Failed_to_create_directories),
                           logging (Error_failed_to_create case_name) st3)
                     else (Inr True,
                           logging (Info_setup_completed case_name)
                             (logging (Info_subdirectories_ensured case_name) st3)))"

text \<open>
  The body every stage repeats for one script:
  \<^verbatim>\<open>try: run_script(...)  except ScriptExecutionError: overall_stage_success = False\<close>.
  Its result is the flag after the script; any other exception would leave the stage.
  \<open>run_scripts\<close> is the \<^verbatim>\<open>for\<close> loop over the (script, arguments) pairs.
\<close>

fun is_ScriptExecutionError :: "error \<Rightarrow> bool" where
  "is_ScriptExecutionError (ScriptExecutionError m) = True"
| "is_ScriptExecutionError e = False"

definition try_run_script ::
  "'w os \<Rightarrow> string \<Rightarrow> int \<Rightarrow> string \<times> string list \<Rightarrow> bool \<Rightarrow> 'w state
     \<Rightarrow> (error + bool) \<times> 'w state" where
  "try_run_script os case_name script_timeout invocation overall_stage_success st =
     (let (r, st') = run_script os (fst invocation) case_name script_timeout (snd invocation) st
      in case r of
           Inl e \<Rightarrow> if is_ScriptExecutionError e then (Inr False, st') else (Inl e, st')
         | Inr b \<Rightarrow> (Inr overall_stage_success, st'))"

fun run_scripts ::
  "'w os \<Rightarrow> string \<Rightarrow> int \<Rightarrow> (string \<times> string list) list \<Rightarrow> bool \<Rightarrow> 'w state
     \<Rightarrow> (error + bool) \<times> 'w state" where
  "run_scripts os case_name script_timeout [] overall_stage_success st =
     (Inr overall_stage_success, st)"
| "run_scripts os case_name script_timeout (invocation # rest) overall_stage_success st =
     (case try_run_script os case_name script_timeout invocation overall_stage_success st of
        (Inl e, st') \<Rightarrow> (Inl e, st')
      | (Inr ok, st') \<Rightarrow> run_scripts os case_name script_timeout rest ok st')"

definition acquire_scripts_to_run :: "string option \<Rightarrow> (string \<times> string list) list" where
  "acquire_scripts_to_run source_type =
     (if source_type = Some ''irs_990s'' \<or> source_type = Some ''all'' \<or> source_type = None
      then [(''scraping/fetch_irs_990_forms.py'', [])] else [])"

definition stage_1_acquire_source_documents ::
  "'w os \<Rightarrow> string \<Rightarrow> string option \<Rightarrow> int \<Rightarrow> 'w state \<Rightarrow> (error + bool) \<times> 'w state" where
  "stage_1_acquire_source_documents os case_name source_type script_timeout st =
     (let (exists, st1) = validate_investigation_exists os case_name
                            (logging (Info_stage_banner 1 case_name source_type) st)
      in if \<not> exists then (Inl (StageError (Cannot_run ''acquire'')), st1)
         else
           let scripts_to_run = acquire_scripts_to_run source_type
           in if scripts_to_run = []
              then (Inr True, logging (Warning_no_acquisition_scripts source_type) st1)
              else run_scripts os case_name script_timeout scripts_to_run True st1)"

definition datashare_actions_to_perform :: "string option \<Rightarrow> (string \<times> string list) list" where
  "datashare_actions_to_perform action =
     (if action = Some ''create_project'' \<or> action = Some ''all'' \<or> action = None
      then [(''datashare_interactions/create_datashare_project.py'', [])] else [])"

definition stage_2_datashare_processing ::
  "'w os \<Rightarrow> string \<Rightarrow> string option \<Rightarrow> int \<Rightarrow> 'w state \<Rightarrow> (error + bool) \<times> 'w state" where
  "stage_2_datashare_processing os case_name action script_timeout st =
     (let (exists, st1) = validate_investigation_exists os case_name
                            (logging (Info_stage_banner 2 case_name action) st)
      in if \<not> exists then (Inl (StageError (Cannot_run ''datashare'')), st1)
         else
           let actions_to_perform = datashare_actions_to_perform action
           in if actions_to_perform = []
              then (Inr True, logging (Warning_no_datashare_actions action) st1)
              else run_scripts os case_name script_timeout actions_to_perform True st1)"

definition parse_scripts_to_run :: "string option \<Rightarrow> (string \<times> string list) list" where
  "parse_scripts_to_run document_type =
     (if document_type = Some ''irs_990s'' \<or> document_type = Some ''all'' \<or> document_type = None
      then [(''parsers/parse_irs_990xml.py'', [])] else [])"

definition stage_3_parse_and_structure_data ::
  "'w os \<Rightarrow> string \<Rightarrow> string option \<Rightarrow> int \<Rightarrow> 'w state \<Rightarrow> (error + bool) \<times> 'w state" where
  "stage_3_parse_and_structure_data os case_name document_type script_timeout st =
     (let (exists, st1) = validate_investigation_exists os case_name
                            (logging (Info_stage_banner 3 case_name document_type) st)
      in if \<not> exists then (Inl (StageError (Cannot_run ''parse'')), st1)
         else
           case run_scripts os case_name script_timeout
                  (parse_scripts_to_run document_type) True st1 of
             (Inl e, st2) \<Rightarrow> (Inl e, st2)
           | (Inr overall_stage_success, st2) \<Rightarrow>
               if document_type = Some ''all'' \<or> document_type = None
               then try_run_script os case_name script_timeout
                      (''analysis/entity_resolution.py'', []) overall_stage_success st2
               else (Inr overall_stage_success, st2))"

definition analyze_scripts_to_run :: "string option \<Rightarrow> (string \<times> string list) list" where
  "analyze_scripts_to_run report_type =
     (if report_type = Some ''connections'' \<or> report_type = Some ''all'' \<or> report_type = None
      then [(''analysis/generate_connections_report.py'', [])] else [])"

definition stage_4_analysis_and_reporting ::
  "'w os \<Rightarrow> string \<Rightarrow> string option \<Rightarrow> int \<Rightarrow> 'w state \<Rightarrow> (error + bool) \<times> 'w state" where
  "stage_4_analysis_and_reporting os case_name report_type script_timeout st =
     (let (exists, st1) = validate_investigation_exists os case_name
                            (logging (Info_stage_banner 4 case_name report_type) st)
      in if \<not> exists then (Inl (StageError (Cannot_run ''analyze'')), st1)
         else run_scripts os case_name script_timeout
                (analyze_scripts_to_run report_type) True st1)"

definition stage_5_package_for_review ::
  "'w os \<Rightarrow> string \<Rightarrow> int \<Rightarrow> 'w state \<Rightarrow> (error + bool) \<times> 'w state" where
  "stage_5_package_for_review os case_name script_timeout st =
     (let (exists, st1) = validate_investigation_exists os case_name
                            (logging (Info_stage_banner 5 case_name None) st)
      in if \<not> exists then (Inl (StageError (Cannot_run ''package'')), st1)
         else (Inr True, logging (Info_package_completed case_name) st1))"

subsection \<open>\<^verbatim>\<open>main\<close>\<close>

text \<open>
  The parsed command line. \<^verbatim>\<open>argparse\<close> itself is not modelled: \<open>stage_choices\<close> are
  the values it lets through for \<^verbatim>\<open>--stage\<close>, and an unset selector is \<open>None\<close>.
\<close>

record args =
  case_name :: string
  stage :: "string list"
  script_timeout :: int
  acquire_type :: "string option"
  datashare_action :: "string option"
  parse_type :: "string option"
  report_type :: "string option"

definition stage_choices :: "string list" where
  "stage_choices =
     [''setup'', ''acquire'', ''datashare'', ''parse'', ''analyze'', ''package'', ''all'']"

definition stages_to_run_ordered :: "string list \<Rightarrow> string list" where
  "stages_to_run_ordered stages_to_run_input =
     (if ''all'' \<in> set stages_to_run_input
      then [''setup'', ''acquire'', ''datashare'', ''parse'', ''analyze'', ''package'']
      else stages_to_run_input)"

text \<open>The \<^verbatim>\<open>if\<close>/\<^verbatim>\<open>elif\<close> chain that calls the stage function of a stage name.\<close>

definition run_stage ::
  "'w os \<Rightarrow> args \<Rightarrow> string \<Rightarrow> 'w state \<Rightarrow> (error + bool) \<times> 'w state" where
  "run_stage os a stage_name st =
     (if stage_name = ''setup''
      then stage_0_setup_investigation os (case_name a) (script_timeout a) st
      else if stage_name = ''acquire''
      then stage_1_acquire_source_documents os (case_name a) (acquire_type a) (script_timeout a) st
      else if stage_name = ''datashare''
      then stage_2_datashare_processing os (case_name a) (datashare_action a) (script_timeout a) st
      else if stage_name = ''parse''
      then stage_3_parse_and_structure_data os (case_name a) (parse_type a) (script_timeout a) st
      else if stage_name = ''analyze''
      then stage_4_analysis_and_reporting os (case_name a) (report_type a) (script_timeout a) st
      else if stage_name = ''package''
      then stage_5_package_for_review os (case_name a) (script_timeout a) st
      else (Inl (OrchestratorError stage_name), logging (Error_unknown_stage stage_name) st))"

text \<open>
  The loop of \<^verbatim>\<open>main\<close> over the stages, with the flag
  \<^verbatim>\<open>overall_workflow_success\<close>. Every exception the model can raise is one of the
  orchestrator's own, so the first handler takes them all; the handler for any other
  exception sets the flag in the same way.
\<close>

fun run_stages :: "'w os \<Rightarrow> args \<Rightarrow> string list \<Rightarrow> bool \<Rightarrow> 'w state \<Rightarrow> bool \<times> 'w state" where
  "run_stages os a [] overall_workflow_success st = (overall_workflow_success, st)"
| "run_stages os a (stage_name # rest) overall_workflow_success st =
     (if \<not> overall_workflow_success \<and> stage_name \<notin> set [''setup'']
      then run_stages os a rest overall_workflow_success
             (logging (Warning_skipping_stage stage_name) st)
      else
        case run_stage os a stage_name (logging (Info_starting_stage stage_name) st) of
          (Inl e, st1) \<Rightarrow>
            run_stages os a rest False (logging (Error_stage_failed stage_name e) st1)
        | (Inr current_stage_success, st1) \<Rightarrow>
            if \<not> current_stage_success
            then run_stages os a rest False
                   (logging (Error_stage_failed stage_name
                               (StageError (Reported_failure stage_name))) st1)
            else run_stages os a rest overall_workflow_success
                   (logging (Info_stage_completed stage_name) st1))"

text \<open>\<^verbatim>\<open>main\<close> returns the exit code of the process: 1 for \<^verbatim>\<open>sys.exit(1)\<close>, else 0.\<close>

definition main :: "'w os \<Rightarrow> args \<Rightarrow> 'w state \<Rightarrow> int \<times> 'w state" where
  "main os a st =
     (let st0 = logging Info_separator
                  (logging (Info_global_timeout (script_timeout a))
                     (logging (Info_requested_stages (stage a))
                        (logging (Info_initializing (case_name a))
                           (logging Info_separator st))))
      in case validate_case_name (case_name a) of
           Inl e \<Rightarrow> (1, logging (Error_workflow_halted e) st0)
         | Inr _ \<Rightarrow>
             let st1 = logging_if (''all'' \<in> set (stage a)) Info_processing_all st0;
                 (overall_workflow_success, st2) =
                   run_stages os a (stages_to_run_ordered (stage a)) True st1;
                 st3 = logging Info_separator st2
             in if overall_workflow_success
                then (0, logging Info_separator
                           (logging (Info_workflow_succeeded (case_name a)) st3))
                else (1, logging Error_review_log_file
                           (logging (Error_workflow_failed (case_name a)) st3)))"

subsection \<open>Reading a run off its log\<close>

text \<open>
  The outcome \<^verbatim>\<open>main\<close> logs for a stage: the warning of a skipped stage, the line of
  a completed one, the error line of a failed one. The banner a stage function logs as
  its first statement tells that the function was called; \<open>stage_function\<close> is the
  number of the function the chain of \<^verbatim>\<open>main\<close> calls for a stage name.
\<close>

datatype stage_status = Succeeded | Skipped | Failed

fun stage_record :: "log_line \<Rightarrow> (string \<times> stage_status) list" where
  "stage_record (Warning_skipping_stage s) = [(s, Skipped)]"
| "stage_record (Info_stage_completed s) = [(s, Succeeded)]"
| "stage_record (Error_stage_failed s e) = [(s, Failed)]"
| "stage_record l = []"

definition stage_records :: "log_line list \<Rightarrow> (string \<times> stage_status) list" where
  "stage_records ls = concat (map stage_record ls)"

fun stage_banner :: "log_line \<Rightarrow> nat list" where
  "stage_banner (Info_stage_banner n c sel) = [n]"
| "stage_banner l = []"

definition stage_functions_called :: "log_line list \<Rightarrow> nat list" where
  "stage_functions_called ls = concat (map stage_banner ls)"

definition stage_function :: "string \<Rightarrow> nat" where
  "stage_function stage_name =
     (if stage_name = ''setup'' then 0
      else if stage_name = ''acquire'' then 1
      else if stage_name = ''datashare'' then 2
      else if stage_name = ''parse'' then 3
      else if stage_name = ''analyze'' then 4
      else 5)"

text \<open>
  The state \<^verbatim>\<open>main\<close> starts from, over a given world: nothing logged by
  \<^verbatim>\<open>main\<close> yet, no process started, \<^verbatim>\<open>run_script\<close> never called.
\<close>

definition initial_state :: "'w \<Rightarrow> 'w state" where
  "initial_state w = \<lparr>world = w, log_lines = [], popen_calls = [], run_script_calls = []\<rparr>"

text \<open>
  The skip policy as a predicate on the recorded outcomes, given the flag before them: a
  stage other than \<open>setup\<close> met with the flag down is skipped; any other stage is
  attempted, and the flag falls unless it succeeds.
\<close>

fun skip_policy :: "bool \<Rightarrow> (string \<times> stage_status) list \<Rightarrow> bool" where
  "skip_policy ok [] = True"
| "skip_policy ok (r # rs) =
     (if \<not> ok \<and> fst r \<noteq> ''setup'' then snd r = Skipped \<and> skip_policy ok rs
      else snd r \<noteq> Skipped \<and> skip_policy (ok \<and> snd r = Succeeded) rs)"

text \<open>The stage names that have a stage function.\<close>

definition known_stages :: "string list" where
  "known_stages = [''setup'', ''acquire'', ''datashare'', ''parse'', ''analyze'', ''package'']"

subsection \<open>Three machines to run the orchestrator on\<close>

text \<open>
  Concrete operating systems over a world with a single state. On \<open>bare_os\<close> no file or
  directory exists and none can be created. On \<open>ready_os\<close> every path exists and every
  script exits with code 0. On \<open>failing_os\<close> every path exists and every script exits
  with code 1.
\<close>

definition bare_os :: "unit os" where
  "bare_os = \<lparr>PROJECT_ROOT = ''/srv/orchestrator'', sys_executable = ''/usr/bin/python3'',
     os_path_isdir = (\<lambda>p w. False), os_path_isfile = (\<lambda>p w. False),
     os_makedirs = (\<lambda>p w. (False, w)),
     popen_communicate = (\<lambda>c t w. (Raised_FileNotFoundError, w))\<rparr>"

definition ready_os :: "unit os" where
  "ready_os = \<lparr>PROJECT_ROOT = ''/srv/orchestrator'', sys_executable = ''/usr/bin/python3'',
     os_path_isdir = (\<lambda>p w. True), os_path_isfile = (\<lambda>p w. True),
     os_makedirs = (\<lambda>p w. (True, w)),
     popen_communicate = (\<lambda>c t w. (Terminated 0 ''done'' [], w))\<rparr>"

definition failing_os :: "unit os" where
  "failing_os = \<lparr>PROJECT_ROOT = ''/srv/orchestrator'', sys_executable = ''/usr/bin/python3'',
     os_path_isdir = (\<lambda>p w. True), os_path_isfile = (\<lambda>p w. True),
     os_makedirs = (\<lambda>p w. (True, w)),
     popen_communicate = (\<lambda>c t w. (Terminated 1 [] ''error'', w))\<rparr>"

definition request :: "string \<Rightarrow> string list \<Rightarrow> args" where
  "request c stages = \<lparr>case_name = c, stage = stages, script_timeout = 7200,
     acquire_type = None, datashare_action = None, parse_type = None, report_type = None\<rparr>"

section \<open>Properties of the case-name validator\<close>

lemma str_contains_iff: "str_contains sub s \<longleftrightarrow> (\<exists>xs ys. s = xs @ sub @ ys)"
proof (induction s)
  case Nil
  then show ?case by auto
next
  case (Cons c cs)
  have pre: "startswith (c # cs) sub \<longleftrightarrow> (\<exists>ys. c # cs = sub @ ys)"
    unfolding startswith_def
    by (metis append_eq_conv_conj append_take_drop_id)
  show ?case
  proof
    assume "str_contains sub (c # cs)"
    then consider "startswith (c # cs) sub" | "str_contains sub cs" by auto
    then show "\<exists>xs ys. c # cs = xs @ sub @ ys"
    proof cases
      case 1
      then obtain ys where "c # cs = sub @ ys" using pre by blast
      then have "c # cs = [] @ sub @ ys" by simp
      then show ?thesis by blast
    next
      case 2
      then obtain xs ys where "cs = xs @ sub @ ys" using Cons.IH by blast
      then have "c # cs = (c # xs) @ sub @ ys" by simp
      then show ?thesis by blast
    qed
  next
    assume "\<exists>xs ys. c # cs = xs @ sub @ ys"
    then obtain xs ys where eq: "c # cs = xs @ sub @ ys" by blast
    show "str_contains sub (c # cs)"
    proof (cases xs)
      case Nil
      then have "startswith (c # cs) sub" using eq pre by auto
      then show ?thesis by simp
    next
      case (Cons x xs')
      then have "cs = xs' @ sub @ ys" using eq by simp
      then have "str_contains sub cs" using Cons.IH by blast
      then show ?thesis by simp
    qed
  qed
qed

lemma re_match_all_allowed:
  assumes "s \<noteq> []" and "\<forall>c\<in>set s. allowed_char c"
  shows "re_match_case_name s"
proof -
  have t: "takeWhile allowed_char s = s"
    using assms(2) by (simp add: takeWhile_eq_all_conv)
  have d: "dropWhile allowed_char s = []"
    using assms(2) by simp
  show ?thesis
    unfolding re_match_case_name_def Let_def t d using assms(1) by simp
qed

lemma re_match_no_disallowed:
  assumes "re_match_case_name s" and "c \<in> set s" and "c \<noteq> CHR 0x0A"
  shows "allowed_char c"
proof -
  have split: "s = takeWhile allowed_char s @ dropWhile allowed_char s" by simp
  from assms(1) have rest: "dropWhile allowed_char s = [] \<or> dropWhile allowed_char s = [CHR 0x0A]"
    by (simp add: re_match_case_name_def Let_def)
  have "c \<in> set (takeWhile allowed_char s) \<or> c \<in> set (dropWhile allowed_char s)"
    using assms(2) split by (metis Un_iff set_append)
  moreover have "c \<notin> set (dropWhile allowed_char s)"
  proof
    assume mem: "c \<in> set (dropWhile allowed_char s)"
    from rest show False
    proof
      assume e: "dropWhile allowed_char s = []"
      from mem show False unfolding e by simp
    next
      assume e: "dropWhile allowed_char s = [CHR 0x0A]"
      from mem assms(3) show False unfolding e by simp
    qed
  qed
  ultimately have "c \<in> set (takeWhile allowed_char s)" by blast
  then show ?thesis by (rule set_takeWhileD[THEN conjunct2])
qed

lemma slash_not_allowed: "\<not> allowed_char CHR ''/''" "\<not> allowed_char CHR 0x5C"
  by (simp_all add: allowed_char_def)

lemma validate_case_name_accepts_iff:
  "validate_case_name s = Inr True \<longleftrightarrow> re_match_case_name s \<and> \<not> str_contains ''..'' s"
  by (auto simp: validate_case_name_def re_match_case_name_def)

lemma newline_not_allowed: "\<not> allowed_char CHR 0x0A"
  by (simp add: allowed_char_def)

lemma re_match_newline_only_last:
  assumes "re_match_case_name s"
  shows "CHR 0x0A \<notin> set (butlast s)"
proof -
  have body: "\<forall>c\<in>set (takeWhile allowed_char s). allowed_char c"
    by (auto dest: set_takeWhileD)
  from assms have "dropWhile allowed_char s = [] \<or> dropWhile allowed_char s = [CHR 0x0A]"
    by (simp add: re_match_case_name_def Let_def)
  then have "set (butlast s) \<subseteq> set (takeWhile allowed_char s)"
  proof
    assume e: "dropWhile allowed_char s = []"
    have tk: "takeWhile allowed_char s = s"
      using takeWhile_dropWhile_id[of allowed_char s] unfolding e by simp
    show ?thesis unfolding tk by (auto dest: in_set_butlastD)
  next
    assume e: "dropWhile allowed_char s = [CHR 0x0A]"
    have "takeWhile allowed_char s @ [CHR 0x0A] = s"
      using takeWhile_dropWhile_id[of allowed_char s] unfolding e .
    then have "butlast s = takeWhile allowed_char s" by (metis butlast_snoc)
    then show ?thesis by simp
  qed
  with body newline_not_allowed show ?thesis by blast
qed

lemma re_match_without_final_newline:
  assumes "re_match_case_name s" and "last s \<noteq> CHR 0x0A"
  shows "\<forall>c\<in>set s. allowed_char c"
proof
  fix c assume c: "c \<in> set s"
  from assms(1) have ne: "s \<noteq> []" by (auto simp: re_match_case_name_def)
  show "allowed_char c"
  proof (cases "c = CHR 0x0A")
    case False
    with assms(1) c show ?thesis by (rule re_match_no_disallowed)
  next
    case True
    from c ne have "c \<in> set (butlast s @ [last s])" by simp
    then have "c \<in> set (butlast s) \<or> c = last s" by auto
    with True assms(2) have "CHR 0x0A \<in> set (butlast s)" by auto
    with re_match_newline_only_last[OF assms(1)] show ?thesis by simp
  qed
qed


text \<open>
  C1 (as amended). The validator rejects every string containing \<^verbatim>\<open>/\<close>, \<^verbatim>\<open>\\\<close> or
  the substring \<^verbatim>\<open>..\<close>. For every string that does not end in a newline, it accepts
  exactly when the string is not empty, all its characters belong to
  \<^verbatim>\<open>[A-Za-z0-9_.-]\<close>, and it does not contain \<^verbatim>\<open>..\<close>. Whatever the last
  character, a string with a character outside the class other than a newline, or with
  a newline before its last character, is rejected. Accepting is returning \<open>True\<close>.
\<close>

theorem validate_case_name_exact:
  "(CHR ''/'' \<in> set s \<or> CHR 0x5C \<in> set s \<or> (\<exists>xs ys. s = xs @ ''..'' @ ys)
      \<longrightarrow> isl (validate_case_name s))
   \<and> (s = [] \<or> last s \<noteq> CHR 0x0A \<longrightarrow>
        (validate_case_name s = Inr True \<longleftrightarrow>
           s \<noteq> [] \<and> (\<forall>c\<in>set s. allowed_char c) \<and> \<not> (\<exists>xs ys. s = xs @ ''..'' @ ys)))
   \<and> ((\<exists>c\<in>set s. \<not> allowed_char c \<and> c \<noteq> CHR 0x0A) \<or> CHR 0x0A \<in> set (butlast s)
        \<longrightarrow> isl (validate_case_name s))
   \<and> (\<not> isl (validate_case_name s) \<longrightarrow> validate_case_name s = Inr True)"
proof (intro conjI impI)
  have rejected: "isl (validate_case_name s)" if "validate_case_name s \<noteq> Inr True"
    using that by (auto simp: validate_case_name_def split: if_splits)
  {
    assume bad: "(\<exists>c\<in>set s. \<not> allowed_char c \<and> c \<noteq> CHR 0x0A) \<or> CHR 0x0A \<in> set (butlast s)"
    have "validate_case_name s \<noteq> Inr True"
    proof
      assume "validate_case_name s = Inr True"
      then have m: "re_match_case_name s" by (simp add: validate_case_name_accepts_iff)
      from bad show False
      proof
        assume "\<exists>c\<in>set s. \<not> allowed_char c \<and> c \<noteq> CHR 0x0A"
        then obtain c where "c \<in> set s" "\<not> allowed_char c" "c \<noteq> CHR 0x0A" by blast
        with re_match_no_disallowed[OF m] show False by blast
      next
        assume "CHR 0x0A \<in> set (butlast s)"
        with re_match_newline_only_last[OF m] show False by simp
      qed
    qed
    then show "isl (validate_case_name s)" by (rule rejected)
  } note other = this
  {
    assume bad: "CHR ''/'' \<in> set s \<or> CHR 0x5C \<in> set s \<or> (\<exists>xs ys. s = xs @ ''..'' @ ys)"
    show "isl (validate_case_name s)"
    proof (cases "\<exists>xs ys. s = xs @ ''..'' @ ys")
      case True
      then have "str_contains ''..'' s" by (simp add: str_contains_iff)
      then have "validate_case_name s \<noteq> Inr True" by (simp add: validate_case_name_accepts_iff)
      then show ?thesis by (rule rejected)
    next
      case False
      with bad have "CHR ''/'' \<in> set s \<or> CHR 0x5C \<in> set s" by blast
      then have "\<exists>c\<in>set s. \<not> allowed_char c \<and> c \<noteq> CHR 0x0A"
        using slash_not_allowed by auto
      then show ?thesis using other by blast
    qed
  }
  {
    assume nl: "s = [] \<or> last s \<noteq> CHR 0x0A"
    show "validate_case_name s = Inr True \<longleftrightarrow>
           s \<noteq> [] \<and> (\<forall>c\<in>set s. allowed_char c) \<and> \<not> (\<exists>xs ys. s = xs @ ''..'' @ ys)"
    proof
      assume acc: "validate_case_name s = Inr True"
      then have m: "re_match_case_name s" and d: "\<not> str_contains ''..'' s"
        by (simp_all add: validate_case_name_accepts_iff)
      from m have ne: "s \<noteq> []" by (auto simp: re_match_case_name_def)
      with nl have "last s \<noteq> CHR 0x0A" by blast
      with m have "\<forall>c\<in>set s. allowed_char c" by (rule re_match_without_final_newline)
      with ne d show "s \<noteq> [] \<and> (\<forall>c\<in>set s. allowed_char c) \<and> \<not> (\<exists>xs ys. s = xs @ ''..'' @ ys)"
        by (simp add: str_contains_iff)
    next
      assume ok: "s \<noteq> [] \<and> (\<forall>c\<in>set s. allowed_char c) \<and> \<not> (\<exists>xs ys. s = xs @ ''..'' @ ys)"
      then have "re_match_case_name s" by (simp add: re_match_all_allowed)
      moreover from ok have "\<not> str_contains ''..'' s" by (simp add: str_contains_iff)
      ultimately show "validate_case_name s = Inr True"
        by (simp add: validate_case_name_accepts_iff)
    qed
  }
  {
    assume "\<not> isl (validate_case_name s)"
    then show "validate_case_name s = Inr True"
      by (auto simp: validate_case_name_def split: if_splits)
  }
qed

theorem validate_case_name_exact_witness:
  "isl (validate_case_name ''a/b'') \<and> validate_case_name ''Case_1.x'' = Inr True
   \<and> isl (validate_case_name ''a b'') \<and> isl (validate_case_name [])"
proof -
  note t = validate_case_name_exact
  have bad: "CHR ''/'' \<in> set ''a/b'' \<or> CHR 0x5C \<in> set ''a/b'' \<or> (\<exists>xs ys. ''a/b'' = xs @ ''..'' @ ys)"
    by simp
  have no_dots: "\<not> str_contains ''..'' ''Case_1.x''"
    by (simp add: startswith_def)
  have nl: "''Case_1.x'' = [] \<or> last ''Case_1.x'' \<noteq> CHR 0x0A" by simp
  have good: "''Case_1.x'' \<noteq> [] \<and> (\<forall>c\<in>set ''Case_1.x''. allowed_char c)
      \<and> \<not> (\<exists>xs ys. ''Case_1.x'' = xs @ ''..'' @ ys)"
    using no_dots by (simp add: allowed_char_def str_contains_iff)
  have space: "(\<exists>c\<in>set ''a b''. \<not> allowed_char c \<and> c \<noteq> CHR 0x0A) \<or> CHR 0x0A \<in> set (butlast ''a b'')"
    by (simp add: allowed_char_def)
  have nl0: "([]::string) = [] \<or> last ([]::string) \<noteq> CHR 0x0A" by simp
  from t[of "''a/b''"] bad have 1: "isl (validate_case_name ''a/b'')" by blast
  from t[of "''Case_1.x''"] nl good have 2: "validate_case_name ''Case_1.x'' = Inr True" by blast
  from t[of "''a b''"] space have 3: "isl (validate_case_name ''a b'')" by blast
  from t[of "[]"] nl0 have "validate_case_name [] \<noteq> Inr True" by blast
  with t[of "[]"] have 4: "isl (validate_case_name [])" by blast
  from 1 2 3 4 show ?thesis by simp
qed


text \<open>
  The string \<^verbatim>\<open>a..b\<close> is not empty and matches \<^verbatim>\<open>^[A-Za-z0-9_.-]+$\<close>, and the
  validator rejects it for its \<^verbatim>\<open>..\<close>: not every non-empty matching string is accepted.
\<close>

theorem validate_case_name_matching_rejected:
  "''a..b'' \<noteq> [] \<and> re_match_case_name ''a..b'' \<and> list_all allowed_char ''a..b''
   \<and> validate_case_name ''a..b'' = Inl (InvalidCaseNameError Path_traversal)"
  by (simp add: validate_case_name_def re_match_case_name_def allowed_char_def startswith_def)

text \<open>
  A name that ends in one newline after characters of the class is accepted, although
  the newline is outside the class: \<^verbatim>\<open>$\<close> in \<^verbatim>\<open>re.match\<close> also matches just before a
  final newline. The docstring of \<^verbatim>\<open>validate_case_name\<close> allows alphanumeric
  characters, underscores, hyphens and periods only.
\<close>

lemma validate_case_name_final_newline:
  "validate_case_name (''abc'' @ [CHR 0x0A]) = Inr True \<and> \<not> allowed_char CHR 0x0A"
  by (simp add: validate_case_name_def re_match_case_name_def allowed_char_def startswith_def)

section \<open>What each function leaves untouched\<close>

lemma logging_simps [simp]:
  "world (logging l st) = world st"
  "log_lines (logging l st) = log_lines st @ [l]"
  "popen_calls (logging l st) = popen_calls st"
  "run_script_calls (logging l st) = run_script_calls st"
  by (simp_all add: logging_def)

lemma logging_if_simps [simp]:
  "world (logging_if b l st) = world st"
  "log_lines (logging_if b l st) = log_lines st @ (if b then [l] else [])"
  "popen_calls (logging_if b l st) = popen_calls st"
  "run_script_calls (logging_if b l st) = run_script_calls st"
  by (simp_all add: logging_if_def)

lemma stage_records_simps [simp]:
  "stage_records [] = []"
  "stage_records (xs @ ys) = stage_records xs @ stage_records ys"
  "stage_records (l # ls) = stage_record l @ stage_records ls"
  by (simp_all add: stage_records_def)

lemma stage_functions_called_simps [simp]:
  "stage_functions_called [] = []"
  "stage_functions_called (xs @ ys) = stage_functions_called xs @ stage_functions_called ys"
  "stage_functions_called (l # ls) = stage_banner l @ stage_functions_called ls"
  by (simp_all add: stage_functions_called_def)

lemma validate_investigation_exists_frame:
  assumes "validate_investigation_exists os c st = (b, st')"
  shows "world st' = world st" "popen_calls st' = popen_calls st"
    "run_script_calls st' = run_script_calls st"
    "stage_records (log_lines st') = stage_records (log_lines st)"
    "stage_functions_called (log_lines st') = stage_functions_called (log_lines st)"
    "b \<longleftrightarrow> validate_case_name c = Inr True
         \<and> os_path_isdir os (os_path_join (INVESTIGATIONS_DIR os) c) (world st)"
  using assms
  by (auto simp: validate_investigation_exists_def Let_def validate_case_name_def
      split: sum.splits if_splits)

lemma run_script_frame:
  assumes "run_script os p c t as st = (r, st')"
  shows "stage_records (log_lines st') = stage_records (log_lines st)"
    "stage_functions_called (log_lines st') = stage_functions_called (log_lines st)"
    "run_script_calls st' = run_script_calls st @ [(p, \<not> isl r)]"
    "r = Inr True \<or> (\<exists>m. r = Inl (ScriptExecutionError m))"
  using assms
  by (auto simp: run_script_def run_script_ends_def Let_def
      split: prod.splits proc_result.splits if_splits)


lemma try_run_script_frame:
  assumes "try_run_script os c t iv ok st = (r, st')"
  shows "stage_records (log_lines st') = stage_records (log_lines st)"
    "stage_functions_called (log_lines st') = stage_functions_called (log_lines st)"
    "\<exists>b. run_script_calls st' = run_script_calls st @ [(fst iv, b)] \<and> r = Inr (ok \<and> b)"
proof -
  obtain r0 st0 where rs: "run_script os (fst iv) c t (snd iv) st = (r0, st0)"
    by (cases "run_script os (fst iv) c t (snd iv) st")
  note fr = run_script_frame[OF rs]
  from assms rs have st': "st' = st0"
    by (auto simp: try_run_script_def split: sum.splits if_splits)
  from fr(1) st' show "stage_records (log_lines st') = stage_records (log_lines st)" by simp
  from fr(2) st' show "stage_functions_called (log_lines st') = stage_functions_called (log_lines st)"
    by simp
  from fr(4) show "\<exists>b. run_script_calls st' = run_script_calls st @ [(fst iv, b)] \<and> r = Inr (ok \<and> b)"
  proof
    assume "r0 = Inr True"
    with assms rs fr(3) st' show ?thesis by (auto simp: try_run_script_def)
  next
    assume "\<exists>m. r0 = Inl (ScriptExecutionError m)"
    with assms rs fr(3) st' show ?thesis by (auto simp: try_run_script_def)
  qed
qed

lemma run_scripts_frame:
  assumes "run_scripts os c t ivs ok st = (r, st')"
  shows "stage_records (log_lines st') = stage_records (log_lines st)
    \<and> stage_functions_called (log_lines st') = stage_functions_called (log_lines st)
    \<and> (\<exists>calls. run_script_calls st' = run_script_calls st @ calls
          \<and> map fst calls = map fst ivs \<and> r = Inr (ok \<and> list_all snd calls))"
  using assms
proof (induction ivs arbitrary: ok st)
  case Nil
  then show ?case by auto
next
  case (Cons iv ivs)
  obtain r1 st1 where t: "try_run_script os c t iv ok st = (r1, st1)"
    by (cases "try_run_script os c t iv ok st")
  from try_run_script_frame[OF t] obtain b where
    f1: "stage_records (log_lines st1) = stage_records (log_lines st)"
    and f2: "stage_functions_called (log_lines st1) = stage_functions_called (log_lines st)"
    and f3: "run_script_calls st1 = run_script_calls st @ [(fst iv, b)]"
    and f4: "r1 = Inr (ok \<and> b)" by blast
  from Cons.prems t f4 have rest: "run_scripts os c t ivs (ok \<and> b) st1 = (r, st')" by simp
  from Cons.IH[OF rest] obtain calls where
    g1: "stage_records (log_lines st') = stage_records (log_lines st1)"
    and g2: "stage_functions_called (log_lines st') = stage_functions_called (log_lines st1)"
    and g3: "run_script_calls st' = run_script_calls st1 @ calls"
    and g4: "map fst calls = map fst ivs"
    and g5: "r = Inr ((ok \<and> b) \<and> list_all snd calls)" by blast
  have "run_script_calls st' = run_script_calls st @ ((fst iv, b) # calls)"
    using f3 g3 by simp
  moreover have "map fst ((fst iv, b) # calls) = map fst (iv # ivs)" using g4 by simp
  moreover have "r = Inr (ok \<and> list_all snd ((fst iv, b) # calls))" using g5 by simp
  ultimately show ?case using f1 f2 g1 g2 by metis
qed

lemma make_subdirs_frame:
  assumes "make_subdirs os ip subs st = (b, st')"
  shows "log_lines st' = log_lines st \<and> popen_calls st' = popen_calls st
    \<and> run_script_calls st' = run_script_calls st"
  using assms
proof (induction subs arbitrary: st)
  case Nil
  then show ?case by auto
next
  case (Cons s subs)
  then show ?case
    by (auto simp: Let_def split: prod.splits if_splits)
qed

lemma stage_0_frame:
  assumes "stage_0_setup_investigation os c t st = (r, st')"
  shows "stage_records (log_lines st') = stage_records (log_lines st)"
    "stage_functions_called (log_lines st') = stage_functions_called (log_lines st) @ [0]"
    "popen_calls st' = popen_calls st"
    "run_script_calls st' = run_script_calls st"
    "r = Inr True \<or> isl r"
  using assms
  by (auto simp: stage_0_setup_investigation_def Let_def
      split: sum.splits prod.splits if_splits dest!: make_subdirs_frame)

lemma stage_missing_directory:
  assumes "\<not> os_path_isdir os (os_path_join (INVESTIGATIONS_DIR os) c) (world st)"
  shows "validate_investigation_exists os c st = (False, snd (validate_investigation_exists os c st))"
  using assms
  by (auto simp: validate_investigation_exists_def Let_def split: sum.splits)

lemma stage_1_frame:
  assumes "stage_1_acquire_source_documents os c sel t st = (r, st')"
  shows "stage_records (log_lines st') = stage_records (log_lines st)"
    "stage_functions_called (log_lines st') = stage_functions_called (log_lines st) @ [1]"
    "r = Inr True \<or> r = Inr False \<or> (\<exists>s. r = Inl (StageError (Cannot_run s)))"
proof -
  obtain b st1 where v: "validate_investigation_exists os c
      (logging (Info_stage_banner 1 c sel) st) = (b, st1)"
    by (cases "validate_investigation_exists os c (logging (Info_stage_banner 1 c sel) st)")
  note fv = validate_investigation_exists_frame[OF v]
  have "stage_records (log_lines st') = stage_records (log_lines st)
    \<and> stage_functions_called (log_lines st') = stage_functions_called (log_lines st) @ [1]
    \<and> (r = Inr True \<or> r = Inr False \<or> (\<exists>s. r = Inl (StageError (Cannot_run s))))"
  proof (cases "b \<and> acquire_scripts_to_run sel \<noteq> []")
    case True
    with assms v have "run_scripts os c t (acquire_scripts_to_run sel) True st1 = (r, st')"
      by (simp add: stage_1_acquire_source_documents_def Let_def)
    from run_scripts_frame[OF this] fv(4,5) show ?thesis by auto
  next
    case False
    with assms v fv(4,5) show ?thesis
      by (auto simp: stage_1_acquire_source_documents_def Let_def split: if_splits)
  qed
  then show "stage_records (log_lines st') = stage_records (log_lines st)"
    "stage_functions_called (log_lines st') = stage_functions_called (log_lines st) @ [1]"
    "r = Inr True \<or> r = Inr False \<or> (\<exists>s. r = Inl (StageError (Cannot_run s)))"
    by blast+
qed


lemma stage_2_frame:
  assumes "stage_2_datashare_processing os c sel t st = (r, st')"
  shows "stage_records (log_lines st') = stage_records (log_lines st)"
    "stage_functions_called (log_lines st') = stage_functions_called (log_lines st) @ [2]"
proof -
  obtain b st1 where v: "validate_investigation_exists os c
      (logging (Info_stage_banner 2 c sel) st) = (b, st1)"
    by (cases "validate_investigation_exists os c (logging (Info_stage_banner 2 c sel) st)")
  note fv = validate_investigation_exists_frame[OF v]
  have "stage_records (log_lines st') = stage_records (log_lines st)
    \<and> stage_functions_called (log_lines st') = stage_functions_called (log_lines st) @ [2]"
  proof (cases "b \<and> datashare_actions_to_perform sel \<noteq> []")
    case True
    with assms v have "run_scripts os c t (datashare_actions_to_perform sel) True st1 = (r, st')"
      by (simp add: stage_2_datashare_processing_def Let_def)
    from run_scripts_frame[OF this] fv(4,5) show ?thesis by auto
  next
    case False
    with assms v fv(4,5) show ?thesis
      by (auto simp: stage_2_datashare_processing_def Let_def split: if_splits)
  qed
  then show "stage_records (log_lines st') = stage_records (log_lines st)"
    "stage_functions_called (log_lines st') = stage_functions_called (log_lines st) @ [2]"
    by blast+
qed

lemma stage_4_frame:
  assumes "stage_4_analysis_and_reporting os c sel t st = (r, st')"
  shows "stage_records (log_lines st') = stage_records (log_lines st)"
    "stage_functions_called (log_lines st') = stage_functions_called (log_lines st) @ [4]"
proof -
  obtain b st1 where v: "validate_investigation_exists os c
      (logging (Info_stage_banner 4 c sel) st) = (b, st1)"
    by (cases "validate_investigation_exists os c (logging (Info_stage_banner 4 c sel) st)")
  note fv = validate_investigation_exists_frame[OF v]
  have "stage_records (log_lines st') = stage_records (log_lines st)
    \<and> stage_functions_called (log_lines st') = stage_functions_called (log_lines st) @ [4]"
  proof (cases "b \<and> analyze_scripts_to_run sel \<noteq> []")
    case True
    with assms v have "run_scripts os c t (analyze_scripts_to_run sel) True st1 = (r, st')"
      by (simp add: stage_4_analysis_and_reporting_def Let_def)
    from run_scripts_frame[OF this] fv(4,5) show ?thesis by auto
  next
    case False
    with assms v fv(4,5) show ?thesis
      by (auto simp: stage_4_analysis_and_reporting_def Let_def split: if_splits)
  qed
  then show "stage_records (log_lines st') = stage_records (log_lines st)"
    "stage_functions_called (log_lines st') = stage_functions_called (log_lines st) @ [4]"
    by blast+
qed

lemma stage_3_frame:
  assumes "stage_3_parse_and_structure_data os c sel t st = (r, st')"
  shows "stage_records (log_lines st') = stage_records (log_lines st)"
    "stage_functions_called (log_lines st') = stage_functions_called (log_lines st) @ [3]"
proof -
  obtain b st1 where v: "validate_investigation_exists os c
      (logging (Info_stage_banner 3 c sel) st) = (b, st1)"
    by (cases "validate_investigation_exists os c (logging (Info_stage_banner 3 c sel) st)")
  note fv = validate_investigation_exists_frame[OF v]
  obtain r2 st2 where l: "run_scripts os c t (parse_scripts_to_run sel) True st1 = (r2, st2)"
    by (cases "run_scripts os c t (parse_scripts_to_run sel) True st1")
  from run_scripts_frame[OF l] obtain ok where
    f2: "stage_records (log_lines st2) = stage_records (log_lines st1)"
      "stage_functions_called (log_lines st2) = stage_functions_called (log_lines st1)"
    and r2: "r2 = Inr ok" by blast
  obtain r3 st3 where e: "try_run_script os c t (''analysis/entity_resolution.py'', []) ok st2
      = (r3, st3)"
    by (cases "try_run_script os c t (''analysis/entity_resolution.py'', []) ok st2")
  note f3 = try_run_script_frame(1,2)[OF e]
  have "stage_records (log_lines st') = stage_records (log_lines st)
    \<and> stage_functions_called (log_lines st') = stage_functions_called (log_lines st) @ [3]"
  proof (cases b)
    case False
    with assms v fv(4,5) show ?thesis
      by (auto simp: stage_3_parse_and_structure_data_def)
  next
    case True
    show ?thesis
    proof (cases "sel = Some ''all'' \<or> sel = None")
      case True
      with \<open>b\<close> assms v l r2 e have "st' = st3"
        by (auto simp: stage_3_parse_and_structure_data_def)
      with f3 f2 fv(4,5) show ?thesis by simp
    next
      case False
      with \<open>b\<close> assms v l r2 have "st' = st2"
        by (auto simp: stage_3_parse_and_structure_data_def)
      with f2 fv(4,5) show ?thesis by simp
    qed
  qed
  then show "stage_records (log_lines st') = stage_records (log_lines st)"
    "stage_functions_called (log_lines st') = stage_functions_called (log_lines st) @ [3]"
    by blast+
qed

lemma stage_5_frame:
  assumes "stage_5_package_for_review os c t st = (r, st')"
  shows "stage_records (log_lines st') = stage_records (log_lines st)"
    "stage_functions_called (log_lines st') = stage_functions_called (log_lines st) @ [5]"
proof -
  obtain b st1 where v: "validate_investigation_exists os c
      (logging (Info_stage_banner 5 c None) st) = (b, st1)"
    by (cases "validate_investigation_exists os c (logging (Info_stage_banner 5 c None) st)")
  note fv = validate_investigation_exists_frame[OF v]
  from assms v fv(4,5)
  show "stage_records (log_lines st') = stage_records (log_lines st)"
    "stage_functions_called (log_lines st') = stage_functions_called (log_lines st) @ [5]"
    by (auto simp: stage_5_package_for_review_def split: if_splits)
qed

section \<open>The stage loop\<close>

lemma run_stage_simps:
  "run_stage os a ''setup'' st = stage_0_setup_investigation os (case_name a) (script_timeout a) st"
  "run_stage os a ''acquire'' st =
     stage_1_acquire_source_documents os (case_name a) (acquire_type a) (script_timeout a) st"
  "run_stage os a ''datashare'' st =
     stage_2_datashare_processing os (case_name a) (datashare_action a) (script_timeout a) st"
  "run_stage os a ''parse'' st =
     stage_3_parse_and_structure_data os (case_name a) (parse_type a) (script_timeout a) st"
  "run_stage os a ''analyze'' st =
     stage_4_analysis_and_reporting os (case_name a) (report_type a) (script_timeout a) st"
  "run_stage os a ''package'' st = stage_5_package_for_review os (case_name a) (script_timeout a) st"
  by (simp_all add: run_stage_def)

lemma stage_function_simps:
  "stage_function ''setup'' = 0" "stage_function ''acquire'' = 1"
  "stage_function ''datashare'' = 2" "stage_function ''parse'' = 3"
  "stage_function ''analyze'' = 4" "stage_function ''package'' = 5"
  by (simp_all add: stage_function_def)


lemma run_stage_unknown:
  assumes "s \<noteq> ''setup''" "s \<noteq> ''acquire''" "s \<noteq> ''datashare''" "s \<noteq> ''parse''"
    "s \<noteq> ''analyze''" "s \<noteq> ''package''"
  shows "run_stage os a s st = (Inl (OrchestratorError s), logging (Error_unknown_stage s) st)"
  unfolding run_stage_def using assms by (simp only: if_False)

lemma run_stage_frame_records:
  assumes "run_stage os a s st = (r, st')"
  shows "stage_records (log_lines st') = stage_records (log_lines st)"
proof (cases "s = ''setup''")
  case True
  from assms[unfolded True run_stage_simps] show ?thesis by (rule stage_0_frame(1))
next
  case n0: False
  show ?thesis
  proof (cases "s = ''acquire''")
    case True
    from assms[unfolded True run_stage_simps] show ?thesis by (rule stage_1_frame(1))
  next
    case n1: False
    show ?thesis
    proof (cases "s = ''datashare''")
      case True
      from assms[unfolded True run_stage_simps] show ?thesis by (rule stage_2_frame(1))
    next
      case n2: False
      show ?thesis
      proof (cases "s = ''parse''")
        case True
        from assms[unfolded True run_stage_simps] show ?thesis by (rule stage_3_frame(1))
      next
        case n3: False
        show ?thesis
        proof (cases "s = ''analyze''")
          case True
          from assms[unfolded True run_stage_simps] show ?thesis by (rule stage_4_frame(1))
        next
          case n4: False
          show ?thesis
          proof (cases "s = ''package''")
            case True
            from assms[unfolded True run_stage_simps] show ?thesis by (rule stage_5_frame(1))
          next
            case n5: False
            from assms[unfolded run_stage_unknown[OF n0 n1 n2 n3 n4 n5]]
            have "st' = logging (Error_unknown_stage s) st" by simp
            then show ?thesis by simp
          qed
        qed
      qed
    qed
  qed
qed

lemma known_stage_cases:
  assumes "s \<in> set [''setup'', ''acquire'', ''datashare'', ''parse'', ''analyze'', ''package'']"
  obtains "s = ''setup''" | "s = ''acquire''" | "s = ''datashare''"
    | "s = ''parse''" | "s = ''analyze''" | "s = ''package''"
proof -
  from assms have "s = ''setup'' \<or> s = ''acquire'' \<or> s = ''datashare''
    \<or> s = ''parse'' \<or> s = ''analyze'' \<or> s = ''package''"
    by (simp only: list.set insert_iff empty_iff simp_thms)
  then show thesis
    by (elim disjE) (erule that)+
qed

lemma run_stage_frame_called:
  assumes "run_stage os a s st = (r, st')"
    and "s \<in> set [''setup'', ''acquire'', ''datashare'', ''parse'', ''analyze'', ''package'']"
  shows "stage_functions_called (log_lines st')
          = stage_functions_called (log_lines st) @ [stage_function s]"
  using assms(2)
proof (cases rule: known_stage_cases)
  case 1
  from assms(1)[unfolded 1 run_stage_simps] show ?thesis
    unfolding 1 stage_function_simps by (rule stage_0_frame(2))
next
  case 2
  from assms(1)[unfolded 2 run_stage_simps] show ?thesis
    unfolding 2 stage_function_simps by (rule stage_1_frame(2))
next
  case 3
  from assms(1)[unfolded 3 run_stage_simps] show ?thesis
    unfolding 3 stage_function_simps by (rule stage_2_frame(2))
next
  case 4
  from assms(1)[unfolded 4 run_stage_simps] show ?thesis
    unfolding 4 stage_function_simps by (rule stage_3_frame(2))
next
  case 5
  from assms(1)[unfolded 5 run_stage_simps] show ?thesis
    unfolding 5 stage_function_simps by (rule stage_4_frame(2))
next
  case 6
  from assms(1)[unfolded 6 run_stage_simps] show ?thesis
    unfolding 6 stage_function_simps by (rule stage_5_frame(2))
qed

lemma run_stages_spec:
  assumes "run_stages os a stages ok st = (ok', st')"
  shows "\<exists>rs. stage_records (log_lines st') = stage_records (log_lines st) @ rs
     \<and> map fst rs = stages \<and> skip_policy ok rs
     \<and> (ok' \<longleftrightarrow> ok \<and> list_all (\<lambda>r. snd r = Succeeded) rs)
     \<and> (set stages \<subseteq> set known_stages \<longrightarrow>
          stage_functions_called (log_lines st') =
            stage_functions_called (log_lines st)
              @ map stage_function (map fst (filter (\<lambda>r. snd r \<noteq> Skipped) rs)))"
  using assms
proof (induction stages arbitrary: ok st)
  case Nil
  then have "st' = st" "ok' = ok" by simp_all
  then show ?case by simp
next
  case (Cons s stages)
  show ?case
  proof (cases "\<not> ok \<and> s \<noteq> ''setup''")
    case True
    then have rec: "run_stages os a stages ok (logging (Warning_skipping_stage s) st) = (ok', st')"
      using Cons.prems by simp
    from Cons.IH[OF rec] obtain rs where
      1: "stage_records (log_lines st') =
            stage_records (log_lines (logging (Warning_skipping_stage s) st)) @ rs"
      and 2: "map fst rs = stages" and 3: "skip_policy ok rs"
      and 4: "ok' \<longleftrightarrow> ok \<and> list_all (\<lambda>r. snd r = Succeeded) rs"
      and 5: "set stages \<subseteq> set known_stages \<longrightarrow>
          stage_functions_called (log_lines st') =
            stage_functions_called (log_lines (logging (Warning_skipping_stage s) st))
              @ map stage_function (map fst (filter (\<lambda>r. snd r \<noteq> Skipped) rs))"
      by blast
    let ?rs = "(s, Skipped) # rs"
    have a: "stage_records (log_lines st') = stage_records (log_lines st) @ ?rs"
      using 1 by simp
    have b: "map fst ?rs = s # stages" using 2 by simp
    have c: "skip_policy ok ?rs" using 3 True by simp
    have d: "ok' \<longleftrightarrow> ok \<and> list_all (\<lambda>r. snd r = Succeeded) ?rs"
      using 4 True by simp
    have e: "set (s # stages) \<subseteq> set known_stages \<longrightarrow>
          stage_functions_called (log_lines st') =
            stage_functions_called (log_lines st)
              @ map stage_function (map fst (filter (\<lambda>r. snd r \<noteq> Skipped) ?rs))"
      using 5 by simp
    show ?thesis by (rule exI[of _ ?rs]) (intro conjI a b c d e)
  next
    case False
    obtain r st1 where run: "run_stage os a s (logging (Info_starting_stage s) st) = (r, st1)"
      by (cases "run_stage os a s (logging (Info_starting_stage s) st)")
    define line where "line =
      (case r of Inl e \<Rightarrow> Error_stage_failed s e
       | Inr b \<Rightarrow> if b then Info_stage_completed s
                  else Error_stage_failed s (StageError (Reported_failure s)))"
    define status where "status = (if r = Inr True then Succeeded else Failed)"
    have rec: "run_stages os a stages (ok \<and> r = Inr True) (logging line st1) = (ok', st')"
      using Cons.prems False run by (cases r) (auto simp: line_def)
    have line: "stage_record line = [(s, status)]" "stage_banner line = []"
      by (cases r; simp add: line_def status_def)+
    have status: "status \<noteq> Skipped" "status = Succeeded \<longleftrightarrow> r = Inr True"
      by (simp_all add: status_def)
    have rec1: "stage_records (log_lines st1) = stage_records (log_lines st)"
      using run_stage_frame_records[OF run] by simp
    from Cons.IH[OF rec] obtain rs where
      1: "stage_records (log_lines st') = stage_records (log_lines (logging line st1)) @ rs"
      and 2: "map fst rs = stages" and 3: "skip_policy (ok \<and> r = Inr True) rs"
      and 4: "ok' \<longleftrightarrow> (ok \<and> r = Inr True) \<and> list_all (\<lambda>r. snd r = Succeeded) rs"
      and 5: "set stages \<subseteq> set known_stages \<longrightarrow>
          stage_functions_called (log_lines st') =
            stage_functions_called (log_lines (logging line st1))
              @ map stage_function (map fst (filter (\<lambda>r. snd r \<noteq> Skipped) rs))"
      by blast
    let ?rs = "(s, status) # rs"
    have a: "stage_records (log_lines st') = stage_records (log_lines st) @ ?rs"
      using 1 rec1 line by simp
    have b: "map fst ?rs = s # stages" using 2 by simp
    have c: "skip_policy ok ?rs" using 3 False status by auto
    have d: "ok' \<longleftrightarrow> ok \<and> list_all (\<lambda>r. snd r = Succeeded) ?rs"
      using 4 status by auto
    have e: "set (s # stages) \<subseteq> set known_stages \<longrightarrow>
          stage_functions_called (log_lines st') =
            stage_functions_called (log_lines st)
              @ map stage_function (map fst (filter (\<lambda>r. snd r \<noteq> Skipped) ?rs))"
    proof
      assume sub: "set (s # stages) \<subseteq> set known_stages"
      then have "s \<in> set [''setup'', ''acquire'', ''datashare'', ''parse'', ''analyze'', ''package'']"
        unfolding known_stages_def by simp
      from run_stage_frame_called[OF run this]
      have "stage_functions_called (log_lines st1)
          = stage_functions_called (log_lines st) @ [stage_function s]" by simp
      moreover from sub have "set stages \<subseteq> set known_stages" by simp
      ultimately show "stage_functions_called (log_lines st') =
            stage_functions_called (log_lines st)
              @ map stage_function (map fst (filter (\<lambda>r. snd r \<noteq> Skipped) ?rs))"
        using 5 line status by simp
    qed
    show ?thesis by (rule exI[of _ ?rs]) (intro conjI a b c d e)
  qed
qed

lemma skip_policy_flag_down:
  assumes "skip_policy False rs" and "q \<in> set rs"
  shows "if fst q = ''setup'' then snd q \<noteq> Skipped else snd q = Skipped"
  using assms
proof (induction rs)
  case Nil
  then show ?case by simp
next
  case (Cons r rs)
  from Cons.prems(1) have tl: "skip_policy False rs"
    by (simp split: if_splits)
  from Cons.prems(1) have hd: "if fst r = ''setup'' then snd r \<noteq> Skipped else snd r = Skipped"
    by (simp split: if_splits)
  from Cons.prems(2) have "q = r \<or> q \<in> set rs" by simp
  then show ?case
  proof
    assume "q = r" with hd show ?thesis by simp
  next
    assume "q \<in> set rs" with tl show ?thesis by (rule Cons.IH)
  qed
qed

lemma skip_policy_after_failure:
  assumes "skip_policy ok (pre @ r # post)" and "snd r = Failed" and "q \<in> set post"
  shows "if fst q = ''setup'' then snd q \<noteq> Skipped else snd q = Skipped"
  using assms(1)
proof (induction pre arbitrary: ok)
  case Nil
  then have "skip_policy False post"
    using assms(2) by (simp split: if_splits)
  then show ?case using assms(3) by (rule skip_policy_flag_down)
next
  case (Cons p pre)
  from Cons.prems have "\<exists>ok1. skip_policy ok1 (pre @ r # post)"
    by (auto split: if_splits)
  then show ?case using Cons.IH by blast
qed

lemma skip_policy_setup_attempted:
  assumes "skip_policy ok rs" and "q \<in> set rs" and "fst q = ''setup''"
  shows "snd q \<noteq> Skipped"
  using assms(1,2)
proof (induction rs arbitrary: ok)
  case Nil
  then show ?case by simp
next
  case (Cons r rs)
  from Cons.prems(1) have tl: "\<exists>ok1. skip_policy ok1 rs" by (auto split: if_splits)
  from Cons.prems(2) have "q = r \<or> q \<in> set rs" by simp
  then show ?case
  proof
    assume "q = r"
    with Cons.prems(1) assms(3) show ?thesis by (simp split: if_splits)
  next
    assume "q \<in> set rs" with tl Cons.IH show ?thesis by blast
  qed
qed

lemma initial_state_simps [simp]:
  "world (initial_state w) = w" "log_lines (initial_state w) = []"
  "popen_calls (initial_state w) = []" "run_script_calls (initial_state w) = []"
  by (simp_all add: initial_state_def)

lemma main_run:
  assumes "validate_case_name (case_name a) = Inr True"
  shows "map fst (stage_records (log_lines (snd (main os a (initial_state w)))))
           = stages_to_run_ordered (stage a)
    \<and> skip_policy True (stage_records (log_lines (snd (main os a (initial_state w)))))
    \<and> fst (main os a (initial_state w))
         = (if list_all (\<lambda>r. snd r = Succeeded)
                 (stage_records (log_lines (snd (main os a (initial_state w))))) then 0 else 1)
    \<and> (set (stages_to_run_ordered (stage a)) \<subseteq> set known_stages \<longrightarrow>
          stage_functions_called (log_lines (snd (main os a (initial_state w)))) =
            map stage_function (map fst (filter (\<lambda>r. snd r \<noteq> Skipped)
              (stage_records (log_lines (snd (main os a (initial_state w))))))))"
proof -
  define st1 where "st1 = logging_if (''all'' \<in> set (stage a)) Info_processing_all
     (logging Info_separator
                  (logging (Info_global_timeout (script_timeout a))
                     (logging (Info_requested_stages (stage a))
                        (logging (Info_initializing (case_name a))
                           (logging Info_separator (initial_state w))))))"
  obtain ok st2 where run: "run_stages os a (stages_to_run_ordered (stage a)) True st1 = (ok, st2)"
    by (cases "run_stages os a (stages_to_run_ordered (stage a)) True st1")
  have r1: "stage_records (log_lines st1) = []" and c1: "stage_functions_called (log_lines st1) = []"
    by (simp_all add: st1_def)
  from run_stages_spec[OF run] obtain rs where
    1: "stage_records (log_lines st2) = rs"
    and 2: "map fst rs = stages_to_run_ordered (stage a)" and 3: "skip_policy True rs"
    and 4: "ok \<longleftrightarrow> list_all (\<lambda>r. snd r = Succeeded) rs"
    and 5: "set (stages_to_run_ordered (stage a)) \<subseteq> set known_stages \<longrightarrow>
          stage_functions_called (log_lines st2) =
              map stage_function (map fst (filter (\<lambda>r. snd r \<noteq> Skipped) rs))"
    unfolding r1 c1 by auto
  have m: "main os a (initial_state w) =
      (if ok then (0, logging Info_separator
                           (logging (Info_workflow_succeeded (case_name a))
                              (logging Info_separator st2)))
       else (1, logging Error_review_log_file
                           (logging (Error_workflow_failed (case_name a))
                              (logging Info_separator st2))))"
    using assms run unfolding main_def st1_def by (simp add: Let_def)
  have recs: "stage_records (log_lines (snd (main os a (initial_state w)))) = rs"
    unfolding m using 1 by simp
  have calls: "stage_functions_called (log_lines (snd (main os a (initial_state w))))
      = stage_functions_called (log_lines st2)"
    unfolding m by simp
  have code: "fst (main os a (initial_state w)) = (if ok then 0 else 1)"
    unfolding m by simp
  show ?thesis
    unfolding recs calls code using 2 3 4 5 by simp
qed

section \<open>The process runner, missing directories and invalid case names\<close>

text \<open>
  C8. If the path \<^verbatim>\<open>run_script\<close> builds for the script is not an existing file, it
  raises the \<^verbatim>\<open>ScriptExecutionError\<close> of a script that was not found, and
  \<^verbatim>\<open>subprocess.Popen\<close> is not called: the list of started processes and the world
  are unchanged.
\<close>

theorem run_script_missing_file:
  assumes "\<not> os_path_isfile os (os_path_join (SCRIPTS_DIR os) script_path_relative) (world st)"
  shows "fst (run_script os script_path_relative c t as st)
           = Inl (ScriptExecutionError Target_script_not_found)
    \<and> popen_calls (snd (run_script os script_path_relative c t as st)) = popen_calls st
    \<and> world (snd (run_script os script_path_relative c t as st)) = world st"
  using assms by (simp add: run_script_def run_script_ends_def Let_def)

theorem run_script_missing_file_witness:
  "fst (run_script bare_os ''parsers/parse_irs_990xml.py'' ''case1'' 7200 [] (initial_state ()))
           = Inl (ScriptExecutionError Target_script_not_found)
    \<and> popen_calls (snd (run_script bare_os ''parsers/parse_irs_990xml.py'' ''case1'' 7200 []
          (initial_state ()))) = []"
proof -
  have h: "\<not> os_path_isfile bare_os
      (os_path_join (SCRIPTS_DIR bare_os) ''parsers/parse_irs_990xml.py'')
      (world (initial_state ()))"
    by (simp add: bare_os_def)
  from run_script_missing_file[OF h, of "''case1''" 7200 "[]"] show ?thesis by simp
qed

lemma missing_directory:
  assumes "\<not> os_path_isdir os (os_path_join (INVESTIGATIONS_DIR os) c) (world st)"
  shows "\<exists>st1. validate_investigation_exists os c (logging l st) = (False, st1)
     \<and> popen_calls st1 = popen_calls st \<and> run_script_calls st1 = run_script_calls st
     \<and> world st1 = world st"
  using assms
  by (auto simp: validate_investigation_exists_def Let_def split: sum.splits)

text \<open>
  C7. For each stage other than \<^verbatim>\<open>setup\<close>, if the investigation directory of the
  case does not exist when the stage runs, the stage function raises its
  \<^verbatim>\<open>StageError\<close> at once: no process is started, \<^verbatim>\<open>run_script\<close> is not called,
  and the world is unchanged.
\<close>

theorem stage_without_investigation_directory:
  assumes "\<not> os_path_isdir os (os_path_join (INVESTIGATIONS_DIR os) (case_name a)) (world st)"
    and "s \<in> set [''acquire'', ''datashare'', ''parse'', ''analyze'', ''package'']"
  shows "fst (run_stage os a s st) = Inl (StageError (Cannot_run s))
    \<and> popen_calls (snd (run_stage os a s st)) = popen_calls st
    \<and> run_script_calls (snd (run_stage os a s st)) = run_script_calls st
    \<and> world (snd (run_stage os a s st)) = world st"
proof -
  from assms(2) have "s = ''acquire'' \<or> s = ''datashare'' \<or> s = ''parse''
      \<or> s = ''analyze'' \<or> s = ''package''"
    by (simp only: list.set insert_iff empty_iff simp_thms)
  then show ?thesis
  proof (elim disjE)
    assume s: "s = ''acquire''"
    from missing_directory[OF assms(1), of "Info_stage_banner 1 (case_name a) (acquire_type a)"]
    show ?thesis unfolding s run_stage_simps
      by (auto simp: stage_1_acquire_source_documents_def)
  next
    assume s: "s = ''datashare''"
    from missing_directory[OF assms(1), of "Info_stage_banner 2 (case_name a) (datashare_action a)"]
    show ?thesis unfolding s run_stage_simps
      by (auto simp: stage_2_datashare_processing_def)
  next
    assume s: "s = ''parse''"
    from missing_directory[OF assms(1), of "Info_stage_banner 3 (case_name a) (parse_type a)"]
    show ?thesis unfolding s run_stage_simps
      by (auto simp: stage_3_parse_and_structure_data_def)
  next
    assume s: "s = ''analyze''"
    from missing_directory[OF assms(1), of "Info_stage_banner 4 (case_name a) (report_type a)"]
    show ?thesis unfolding s run_stage_simps
      by (auto simp: stage_4_analysis_and_reporting_def)
  next
    assume s: "s = ''package''"
    from missing_directory[OF assms(1), of "Info_stage_banner 5 (case_name a) None"]
    show ?thesis unfolding s run_stage_simps
      by (auto simp: stage_5_package_for_review_def)
  qed
qed

theorem stage_without_investigation_directory_witness:
  "fst (run_stage bare_os (request ''case1'' [''parse'']) ''parse'' (initial_state ()))
     = Inl (StageError (Cannot_run ''parse''))
   \<and> popen_calls (snd (run_stage bare_os (request ''case1'' [''parse'']) ''parse''
        (initial_state ()))) = []"
proof -
  have h1: "\<not> os_path_isdir bare_os
      (os_path_join (INVESTIGATIONS_DIR bare_os) (case_name (request ''case1'' [''parse''])))
      (world (initial_state ()))"
    by (simp add: bare_os_def)
  have h2: "''parse'' \<in> set [''acquire'', ''datashare'', ''parse'', ''analyze'', ''package'']"
    by simp
  from stage_without_investigation_directory[OF h1 h2] show ?thesis by simp
qed

text \<open>
  C10. When the case name fails validation, \<^verbatim>\<open>main\<close> exits with code 1 whatever
  stages were requested: no stage function is called, \<^verbatim>\<open>run_script\<close> is not called,
  no process is started, and the world (so every directory) is unchanged.
\<close>

theorem invalid_case_name_halts:
  assumes "isl (validate_case_name (case_name a))"
  shows "fst (main os a st) = 1
    \<and> world (snd (main os a st)) = world st
    \<and> popen_calls (snd (main os a st)) = popen_calls st
    \<and> run_script_calls (snd (main os a st)) = run_script_calls st
    \<and> stage_functions_called (log_lines (snd (main os a st)))
         = stage_functions_called (log_lines st)"
  using assms by (auto simp: main_def Let_def split: sum.splits)

lemma valid_case1: "validate_case_name ''case1'' = Inr True"
  by (simp add: validate_case_name_def re_match_case_name_def allowed_char_def startswith_def)

theorem invalid_case_name_halts_witness:
  "fst (main ready_os (request ''../etc'' [''setup'', ''acquire'']) (initial_state ())) = 1
   \<and> popen_calls (snd (main ready_os (request ''../etc'' [''setup'', ''acquire''])
        (initial_state ()))) = []
   \<and> stage_functions_called (log_lines (snd (main ready_os
        (request ''../etc'' [''setup'', ''acquire'']) (initial_state ())))) = []"
proof -
  have h: "isl (validate_case_name (case_name (request ''../etc'' [''setup'', ''acquire''])))"
    by (simp add: request_def validate_case_name_def re_match_case_name_def allowed_char_def)
  from invalid_case_name_halts[OF h, of ready_os "initial_state ()"] show ?thesis by simp
qed

text \<open>
  On a machine where no directory can be created, \<^verbatim>\<open>setup\<close> fails; the run of
  \<^verbatim>\<open>setup\<close> then \<^verbatim>\<open>acquire\<close> records \<^verbatim>\<open>acquire\<close> as skipped, calls the
  stage function of \<^verbatim>\<open>setup\<close> only, and starts no process: \<^verbatim>\<open>acquire\<close> is not
  attempted after the failed \<^verbatim>\<open>setup\<close>.
\<close>

theorem failed_setup_acquire_not_attempted:
  "stage_records (log_lines (snd (main bare_os (request ''case1'' [''setup'', ''acquire''])
      (initial_state ())))) = [(''setup'', Failed), (''acquire'', Skipped)]
   \<and> stage_functions_called (log_lines (snd (main bare_os (request ''case1'' [''setup'', ''acquire''])
      (initial_state ())))) = [0]
   \<and> popen_calls (snd (main bare_os (request ''case1'' [''setup'', ''acquire''])
      (initial_state ()))) = []"
  by (simp add: main_def request_def valid_case1 stages_to_run_ordered_def run_stage_simps
      stage_0_setup_investigation_def bare_os_def Let_def)

section \<open>The order of stages and the skip policy\<close>

lemma stage_choices_known: "stage_choices = known_stages @ [''all'']"
  by (simp add: stage_choices_def known_stages_def)

lemma stages_to_run_ordered_known:
  assumes "set stages \<subseteq> set stage_choices"
  shows "set (stages_to_run_ordered stages) \<subseteq> set known_stages"
proof (cases "''all'' \<in> set stages")
  case True
  then have "stages_to_run_ordered stages = known_stages"
    by (simp add: stages_to_run_ordered_def known_stages_def)
  then show ?thesis by simp
next
  case False
  then have eq: "stages_to_run_ordered stages = stages"
    by (simp add: stages_to_run_ordered_def)
  have "set stage_choices = set known_stages \<union> {''all''}"
    unfolding stage_choices_known by simp
  with assms False show ?thesis unfolding eq by blast
qed

lemma two_records:
  assumes "map fst rs = [x, y]"
  obtains sx sy where "rs = [(x, sx), (y, sy)]"
proof -
  from assms obtain r1 r2 where rs: "rs = [r1, r2]" and f: "fst r1 = x" "fst r2 = y"
    by (auto simp: map_eq_Cons_conv)
  have "rs = [(x, snd r1), (y, snd r2)]"
    unfolding rs using f by (simp add: prod_eq_iff)
  then show thesis by (rule that)
qed

lemma not_all_two:
  "stages_to_run_ordered [''setup'', ''acquire''] = [''setup'', ''acquire'']"
  "stages_to_run_ordered [''acquire'', ''parse''] = [''acquire'', ''parse'']"
  by (simp_all add: stages_to_run_ordered_def)

lemma two_stage_failure:
  assumes m: "map fst rs = [x, y]" and p: "skip_policy True rs"
    and f: "(x, Failed) \<in> set rs" and xy: "x \<noteq> y" and y: "y \<noteq> ''setup''"
  shows "rs = [(x, Failed), (y, Skipped)]"
proof -
  from m obtain sx sy where rs: "rs = [(x, sx), (y, sy)]" by (rule two_records)
  from f xy have sx: "sx = Failed" unfolding rs by auto
  from p y have "sy = Skipped" unfolding rs sx by simp
  with sx rs show ?thesis by simp
qed

text \<open>
  C2 (as amended). If the requested stages are \<^verbatim>\<open>setup\<close> then \<^verbatim>\<open>acquire\<close> and
  the run records \<^verbatim>\<open>setup\<close> as failed, then \<^verbatim>\<open>acquire\<close> is recorded as skipped,
  the only stage function called is that of \<^verbatim>\<open>setup\<close>, and the exit code is 1: the
  failure of any stage, \<^verbatim>\<open>setup\<close> included, lowers the flag that every stage other
  than \<^verbatim>\<open>setup\<close> checks.
\<close>

theorem failed_setup_skips_acquire:
  assumes "validate_case_name (case_name a) = Inr True"
    and "stage a = [''setup'', ''acquire'']"
    and "(''setup'', Failed) \<in> set (stage_records (log_lines (snd (main os a (initial_state w)))))"
  shows "stage_records (log_lines (snd (main os a (initial_state w))))
           = [(''setup'', Failed), (''acquire'', Skipped)]
    \<and> stage_functions_called (log_lines (snd (main os a (initial_state w)))) = [0]
    \<and> fst (main os a (initial_state w)) = 1"
proof -
  let ?rs = "stage_records (log_lines (snd (main os a (initial_state w))))"
  note run = main_run[OF assms(1), of os w, unfolded assms(2) not_all_two]
  have known: "set [''setup'', ''acquire''] \<subseteq> set known_stages"
    by (simp add: known_stages_def)
  have rs: "?rs = [(''setup'', Failed), (''acquire'', Skipped)]"
    using run assms(3) by (intro two_stage_failure) simp_all
  from run known have "stage_functions_called (log_lines (snd (main os a (initial_state w))))
      = map stage_function (map fst (filter (\<lambda>r. snd r \<noteq> Skipped) ?rs))" by blast
  then have called: "stage_functions_called (log_lines (snd (main os a (initial_state w)))) = [0]"
    unfolding rs by (simp add: stage_function_simps)
  from run have "fst (main os a (initial_state w))
         = (if list_all (\<lambda>r. snd r = Succeeded) ?rs then 0 else 1)" by blast
  then have "fst (main os a (initial_state w)) = 1" unfolding rs by simp
  with rs called show ?thesis by simp
qed

theorem failed_setup_skips_acquire_witness:
  "stage_records (log_lines (snd (main bare_os (request ''case1'' [''setup'', ''acquire''])
      (initial_state ())))) = [(''setup'', Failed), (''acquire'', Skipped)]
   \<and> fst (main bare_os (request ''case1'' [''setup'', ''acquire'']) (initial_state ())) = 1"
proof -
  have h1: "validate_case_name (case_name (request ''case1'' [''setup'', ''acquire''])) = Inr True"
    by (simp add: request_def valid_case1)
  have h2: "stage (request ''case1'' [''setup'', ''acquire'']) = [''setup'', ''acquire'']"
    by (simp add: request_def)
  have h3: "(''setup'', Failed) \<in> set (stage_records (log_lines (snd
      (main bare_os (request ''case1'' [''setup'', ''acquire'']) (initial_state ())))))"
    by (simp add: main_def request_def valid_case1 stages_to_run_ordered_def run_stage_simps
      stage_0_setup_investigation_def bare_os_def Let_def)
  from failed_setup_skips_acquire[OF h1 h2 h3] show ?thesis by blast
qed

lemma all_succeeded_none_skipped:
  assumes "list_all (\<lambda>r. snd r = Succeeded) rs"
  shows "filter (\<lambda>r. snd r \<noteq> Skipped) rs = rs"
  using assms by (induction rs) auto

lemma main_success_calls:
  assumes "validate_case_name (case_name a) = Inr True"
    and "set (stage a) \<subseteq> set stage_choices"
    and "fst (main os a (initial_state w)) = 0"
  shows "stage_functions_called (log_lines (snd (main os a (initial_state w))))
      = map stage_function (stages_to_run_ordered (stage a))"
proof -
  let ?rs = "stage_records (log_lines (snd (main os a (initial_state w))))"
  note run = main_run[OF assms(1), of os w]
  from run assms(3) have "list_all (\<lambda>r. snd r = Succeeded) ?rs"
    by (auto split: if_splits)
  then have "filter (\<lambda>r. snd r \<noteq> Skipped) ?rs = ?rs" by (rule all_succeeded_none_skipped)
  moreover from run stages_to_run_ordered_known[OF assms(2)]
  have "stage_functions_called (log_lines (snd (main os a (initial_state w))))
        = map stage_function (map fst (filter (\<lambda>r. snd r \<noteq> Skipped) ?rs))" by blast
  moreover from run have "map fst ?rs = stages_to_run_ordered (stage a)" by blast
  ultimately show ?thesis by simp
qed

lemma stage_function_inj:
  assumes "x \<in> set known_stages" and "y \<in> set known_stages"
    and "stage_function x = stage_function y"
  shows "x = y"
  using assms unfolding known_stages_def
  by (elim known_stage_cases) (simp_all add: stage_function_simps)

lemma count_list_map_filter_le:
  "count_list (map f (filter P xs)) y \<le> count_list (map f xs) y"
  by (induction xs) auto

lemma count_list_map_inj:
  assumes "\<And>x. x \<in> set xs \<Longrightarrow> f x = f y \<Longrightarrow> x = y"
  shows "count_list (map f xs) (f y) = count_list xs y"
  using assms by (induction xs) auto

text \<open>
  C9. When \<^verbatim>\<open>all\<close> is not requested, the run goes through the requested list as it
  is, duplicates included: one record per listed occurrence, in the listed order; the
  stage functions called are those of the occurrences not skipped, in order, so a stage
  listed \<open>n\<close> times has its function called at most \<open>n\<close> times, and exactly once per
  occurrence when the run exits with code 0.
\<close>

theorem duplicates_run_verbatim:
  assumes "validate_case_name (case_name a) = Inr True"
    and "set (stage a) \<subseteq> set stage_choices"
    and "''all'' \<notin> set (stage a)"
  shows "map fst (stage_records (log_lines (snd (main os a (initial_state w))))) = stage a
    \<and> stage_functions_called (log_lines (snd (main os a (initial_state w))))
        = map stage_function (map fst (filter (\<lambda>r. snd r \<noteq> Skipped)
            (stage_records (log_lines (snd (main os a (initial_state w)))))))
    \<and> (\<forall>s\<in>set (stage a).
          count_list (stage_functions_called (log_lines (snd (main os a (initial_state w)))))
            (stage_function s) \<le> count_list (stage a) s)
    \<and> (fst (main os a (initial_state w)) = 0 \<longrightarrow>
          stage_functions_called (log_lines (snd (main os a (initial_state w))))
            = map stage_function (stage a))"
proof -
  let ?rs = "stage_records (log_lines (snd (main os a (initial_state w))))"
  let ?called = "stage_functions_called (log_lines (snd (main os a (initial_state w))))"
  let ?run = "map fst (filter (\<lambda>r. snd r \<noteq> Skipped) ?rs)"
  note run = main_run[OF assms(1), of os w]
  have ord: "stages_to_run_ordered (stage a) = stage a"
    using assms(3) by (simp add: stages_to_run_ordered_def)
  have known: "set (stage a) \<subseteq> set known_stages"
    using stages_to_run_ordered_known[OF assms(2)] unfolding ord .
  from run have names: "map fst ?rs = stage a" unfolding ord by blast
  from run known have called: "?called = map stage_function ?run" unfolding ord by blast
  have count: "count_list ?called (stage_function s) \<le> count_list (stage a) s"
    if s: "s \<in> set (stage a)" for s
  proof -
    have "set ?run \<subseteq> set (map fst ?rs)" by auto
    then have sub: "set ?run \<subseteq> set known_stages" using names known by simp
    have "count_list (map stage_function ?run) (stage_function s) = count_list ?run s"
    proof (rule count_list_map_inj)
      fix x assume "x \<in> set ?run" and eq: "stage_function x = stage_function s"
      then have "x \<in> set known_stages" using sub by blast
      moreover have "s \<in> set known_stages" using s known by blast
      ultimately show "x = s" using eq by (rule stage_function_inj)
    qed
    also have "\<dots> \<le> count_list (map fst ?rs) s" by (rule count_list_map_filter_le)
    finally show ?thesis unfolding called names .
  qed
  have success: "?called = map stage_function (stage a)"
    if "fst (main os a (initial_state w)) = 0"
    using main_success_calls[OF assms(1,2) that] unfolding ord .
  from names called count success show ?thesis by blast
qed

theorem duplicates_run_verbatim_witness:
  "map fst (stage_records (log_lines (snd (main ready_os
      (request ''case1'' [''package'', ''setup'', ''package'']) (initial_state ())))))
     = [''package'', ''setup'', ''package'']
   \<and> stage_functions_called (log_lines (snd (main ready_os
      (request ''case1'' [''package'', ''setup'', ''package'']) (initial_state ())))) = [5, 0, 5]"
proof -
  let ?a = "request ''case1'' [''package'', ''setup'', ''package'']"
  have h1: "validate_case_name (case_name ?a) = Inr True"
    by (simp add: request_def valid_case1)
  have h2: "set (stage ?a) \<subseteq> set stage_choices"
    by (simp add: request_def stage_choices_def)
  have h3: "''all'' \<notin> set (stage ?a)"
    by (simp add: request_def)
  have h4: "fst (main ready_os ?a (initial_state ())) = 0"
    by (simp add: main_def request_def valid_case1 stages_to_run_ordered_def run_stage_simps
      stage_5_package_for_review_def stage_0_setup_investigation_def
      validate_investigation_exists_def ready_os_def Let_def standard_subdirs_def)
  note t = duplicates_run_verbatim[OF h1 h2 h3, of ready_os "()"]
  from t have "map fst (stage_records (log_lines (snd (main ready_os ?a (initial_state ())))))
      = stage ?a" by blast
  moreover from t h4 have "stage_functions_called (log_lines (snd (main ready_os ?a
      (initial_state ())))) = map stage_function (stage ?a)" by blast
  ultimately show ?thesis by (simp add: request_def stage_function_simps)
qed

section \<open>Scripts within a stage\<close>

lemma investigation_found:
  assumes "validate_case_name c = Inr True"
    and "os_path_isdir os (os_path_join (INVESTIGATIONS_DIR os) c) (world st)"
  shows "validate_investigation_exists os c (logging l st) = (True, logging l st)"
  using assms by (simp add: validate_investigation_exists_def)

lemma try_run_script_calls:
  "\<exists>b. run_script_calls (snd (try_run_script os c t iv ok st)) = run_script_calls st @ [(fst iv, b)]
     \<and> fst (try_run_script os c t iv ok st) = Inr (ok \<and> b)"
  using try_run_script_frame(3)[of os c t iv ok st
      "fst (try_run_script os c t iv ok st)" "snd (try_run_script os c t iv ok st)"]
  by simp

lemma run_scripts_calls:
  "\<exists>calls. run_script_calls (snd (run_scripts os c t ivs ok st)) = run_script_calls st @ calls
     \<and> map fst calls = map fst ivs
     \<and> fst (run_scripts os c t ivs ok st) = Inr (ok \<and> list_all snd calls)"
  using run_scripts_frame[of os c t ivs ok st
      "fst (run_scripts os c t ivs ok st)" "snd (run_scripts os c t ivs ok st)"]
  by simp

text \<open>
  C5. When the parse stage runs on an existing investigation directory: with the selector
  \<^verbatim>\<open>all\<close> or unset, \<^verbatim>\<open>run_script\<close> is called for the parser and then for the
  entity resolution, whatever the parser's outcome \<open>b1\<close>, and the stage succeeds exactly
  when both did; with the selector \<^verbatim>\<open>irs_990s\<close> only the parser is run; with any other
  selector no script is run.
\<close>

theorem parse_entity_resolution:
  assumes "validate_case_name c = Inr True"
    and "os_path_isdir os (os_path_join (INVESTIGATIONS_DIR os) c) (world st)"
  shows "(document_type = None \<or> document_type = Some ''all'' \<longrightarrow>
           (\<exists>b1 b2. run_script_calls (snd (stage_3_parse_and_structure_data os c document_type t st))
                 = run_script_calls st
                    @ [(''parsers/parse_irs_990xml.py'', b1), (''analysis/entity_resolution.py'', b2)]
              \<and> fst (stage_3_parse_and_structure_data os c document_type t st) = Inr (b1 \<and> b2)))
    \<and> (document_type = Some ''irs_990s'' \<longrightarrow>
           (\<exists>b1. run_script_calls (snd (stage_3_parse_and_structure_data os c document_type t st))
                 = run_script_calls st @ [(''parsers/parse_irs_990xml.py'', b1)]
              \<and> fst (stage_3_parse_and_structure_data os c document_type t st) = Inr b1))
    \<and> (document_type \<noteq> None \<and> document_type \<noteq> Some ''all''
         \<and> document_type \<noteq> Some ''irs_990s'' \<longrightarrow>
           run_script_calls (snd (stage_3_parse_and_structure_data os c document_type t st))
             = run_script_calls st
           \<and> fst (stage_3_parse_and_structure_data os c document_type t st) = Inr True)"
proof (intro conjI impI)
  let ?st1 = "logging (Info_stage_banner 3 c document_type) st"
  let ?p = "(''parsers/parse_irs_990xml.py'', [])"
  let ?e = "(''analysis/entity_resolution.py'', [])"
  note found = investigation_found[OF assms, of "Info_stage_banner 3 c document_type"]
  obtain r1 st2 where p: "try_run_script os c t ?p True ?st1 = (r1, st2)"
    by (cases "try_run_script os c t ?p True ?st1")
  from try_run_script_calls[of os c t ?p True ?st1] p obtain b1 where
    c1: "run_script_calls st2 = run_script_calls st @ [(''parsers/parse_irs_990xml.py'', b1)]"
    and r1: "r1 = Inr b1" by auto
  {
    assume sel: "document_type = None \<or> document_type = Some ''all''"
    then have scripts: "parse_scripts_to_run document_type = [?p]"
      by (auto simp: parse_scripts_to_run_def)
    have eq: "stage_3_parse_and_structure_data os c document_type t st
        = try_run_script os c t ?e b1 st2"
      using sel found p r1 by (auto simp: stage_3_parse_and_structure_data_def scripts)
    from try_run_script_calls[of os c t ?e b1 st2] obtain b2 where
      "run_script_calls (snd (try_run_script os c t ?e b1 st2))
          = run_script_calls st2 @ [(''analysis/entity_resolution.py'', b2)]"
      and "fst (try_run_script os c t ?e b1 st2) = Inr (b1 \<and> b2)" by auto
    then have "run_script_calls (snd (stage_3_parse_and_structure_data os c document_type t st))
                 = run_script_calls st
                    @ [(''parsers/parse_irs_990xml.py'', b1), (''analysis/entity_resolution.py'', b2)]
              \<and> fst (stage_3_parse_and_structure_data os c document_type t st) = Inr (b1 \<and> b2)"
      unfolding eq c1 by simp
    then show "\<exists>b1 b2. run_script_calls (snd (stage_3_parse_and_structure_data os c document_type t st))
                 = run_script_calls st
                    @ [(''parsers/parse_irs_990xml.py'', b1), (''analysis/entity_resolution.py'', b2)]
              \<and> fst (stage_3_parse_and_structure_data os c document_type t st) = Inr (b1 \<and> b2)"
      by blast
  }
  {
    assume sel: "document_type = Some ''irs_990s''"
    then have scripts: "parse_scripts_to_run document_type = [?p]"
      by (simp add: parse_scripts_to_run_def)
    have "stage_3_parse_and_structure_data os c document_type t st = (Inr b1, st2)"
      using found p r1 unfolding stage_3_parse_and_structure_data_def scripts
      by (simp add: sel)
    then show "\<exists>b1. run_script_calls (snd (stage_3_parse_and_structure_data os c document_type t st))
                 = run_script_calls st @ [(''parsers/parse_irs_990xml.py'', b1)]
              \<and> fst (stage_3_parse_and_structure_data os c document_type t st) = Inr b1"
      using c1 by simp
  }
  {
    assume sel: "document_type \<noteq> None \<and> document_type \<noteq> Some ''all''
         \<and> document_type \<noteq> Some ''irs_990s''"
    then have scripts: "parse_scripts_to_run document_type = []"
      by (simp add: parse_scripts_to_run_def)
    from sel have n1: "document_type \<noteq> None" and n2: "document_type \<noteq> Some ''all''"
      by blast+
    have eq: "stage_3_parse_and_structure_data os c document_type t st = (Inr True, ?st1)"
      unfolding stage_3_parse_and_structure_data_def scripts
      by (simp add: found n1 n2)
    show "run_script_calls (snd (stage_3_parse_and_structure_data os c document_type t st))
             = run_script_calls st"
      unfolding eq by simp
    show "fst (stage_3_parse_and_structure_data os c document_type t st) = Inr True"
      unfolding eq by simp
  }
qed

lemma case1_directory:
  "os_path_isdir failing_os (os_path_join (INVESTIGATIONS_DIR failing_os) ''case1'')
     (world (initial_state ()))"
  "os_path_isdir ready_os (os_path_join (INVESTIGATIONS_DIR ready_os) ''case1'')
     (world (initial_state ()))"
  "\<not> os_path_isdir bare_os (os_path_join (INVESTIGATIONS_DIR bare_os) ''case1'')
     (world (initial_state ()))"
  by (simp_all add: failing_os_def ready_os_def bare_os_def)

lemma failing_run_script:
  "fst (run_script failing_os p c t as st)
     = Inl (ScriptExecutionError (Unexpected_error (Nonzero_return_code 1)))"
  "run_script_calls (snd (run_script failing_os p c t as st)) = run_script_calls st @ [(p, False)]"
  by (simp_all add: run_script_def run_script_ends_def failing_os_def Let_def)

lemma failing_try_run_script:
  "fst (try_run_script failing_os c t iv ok st) = Inr False"
  "run_script_calls (snd (try_run_script failing_os c t iv ok st))
     = run_script_calls st @ [(fst iv, False)]"
  by (simp_all add: try_run_script_def failing_run_script split_beta)

theorem parse_entity_resolution_witness:
  "run_script_calls (snd (stage_3_parse_and_structure_data failing_os ''case1'' None 7200
       (initial_state ())))
     = [(''parsers/parse_irs_990xml.py'', False), (''analysis/entity_resolution.py'', False)]
   \<and> map fst (run_script_calls (snd (stage_3_parse_and_structure_data failing_os ''case1''
       (Some ''irs_990s'') 7200 (initial_state ())))) = [''parsers/parse_irs_990xml.py'']"
proof -
  note t = parse_entity_resolution[OF valid_case1 case1_directory(1)]
  from t[of None 7200] obtain b1 b2 where
    calls: "run_script_calls (snd (stage_3_parse_and_structure_data failing_os ''case1'' None 7200
       (initial_state ())))
     = [(''parsers/parse_irs_990xml.py'', b1), (''analysis/entity_resolution.py'', b2)]"
    and res: "fst (stage_3_parse_and_structure_data failing_os ''case1'' None 7200
       (initial_state ())) = Inr (b1 \<and> b2)"
    by auto
  let ?st1 = "logging (Info_stage_banner 3 ''case1'' None) (initial_state ())"
  let ?r = "try_run_script failing_os ''case1'' 7200 (''parsers/parse_irs_990xml.py'', []) True ?st1"
  have unfold: "stage_3_parse_and_structure_data failing_os ''case1'' None 7200 (initial_state ())
      = try_run_script failing_os ''case1'' 7200 (''analysis/entity_resolution.py'', [])
          False (snd ?r)"
    unfolding stage_3_parse_and_structure_data_def
      investigation_found[OF valid_case1 case1_directory(1)] parse_scripts_to_run_def
    using failing_try_run_script(1)[of "''case1''" 7200 "(''parsers/parse_irs_990xml.py'', [])" True ?st1]
    by (cases ?r) simp
  have ev: "run_script_calls (snd (stage_3_parse_and_structure_data failing_os ''case1'' None 7200
       (initial_state ())))
     = [(''parsers/parse_irs_990xml.py'', False), (''analysis/entity_resolution.py'', False)]"
    unfolding unfold by (simp add: failing_try_run_script(2))
  from calls ev have "b1 = False" "b2 = False" by simp_all
  from t[of "Some ''irs_990s''" 7200] obtain b where
    "run_script_calls (snd (stage_3_parse_and_structure_data failing_os ''case1''
       (Some ''irs_990s'') 7200 (initial_state ()))) = [(''parsers/parse_irs_990xml.py'', b)]"
    by auto
  with calls \<open>b1 = False\<close> \<open>b2 = False\<close> show ?thesis by simp
qed

text \<open>
  C6. The loop of a stage calls \<^verbatim>\<open>run_script\<close> for every invocation of its list, in
  order, whether or not an earlier one failed, and its result is success exactly when
  every call succeeded; on an empty list it is success. The same holds for the acquire
  and datashare stages, on an existing investigation directory, with the list each
  resolves from its selector.
\<close>

theorem scripts_within_a_stage:
  assumes "validate_case_name c = Inr True"
    and "os_path_isdir os (os_path_join (INVESTIGATIONS_DIR os) c) (world st)"
  shows "(\<exists>calls. run_script_calls (snd (run_scripts os c t ivs True st))
                    = run_script_calls st @ calls
            \<and> map fst calls = map fst ivs
            \<and> fst (run_scripts os c t ivs True st) = Inr (list_all snd calls))
    \<and> fst (run_scripts os c t [] True st) = Inr True
    \<and> (\<exists>calls. run_script_calls (snd (stage_1_acquire_source_documents os c source_type t st))
                    = run_script_calls st @ calls
            \<and> map fst calls = map fst (acquire_scripts_to_run source_type)
            \<and> fst (stage_1_acquire_source_documents os c source_type t st)
                = Inr (list_all snd calls))
    \<and> (\<exists>calls. run_script_calls (snd (stage_2_datashare_processing os c action t st))
                    = run_script_calls st @ calls
            \<and> map fst calls = map fst (datashare_actions_to_perform action)
            \<and> fst (stage_2_datashare_processing os c action t st)
                = Inr (list_all snd calls))"
proof (intro conjI)
  show "\<exists>calls. run_script_calls (snd (run_scripts os c t ivs True st))
                    = run_script_calls st @ calls
            \<and> map fst calls = map fst ivs
            \<and> fst (run_scripts os c t ivs True st) = Inr (list_all snd calls)"
    using run_scripts_calls[of os c t ivs True st] by simp
  show "fst (run_scripts os c t [] True st) = Inr True" by simp
  show "\<exists>calls. run_script_calls (snd (stage_1_acquire_source_documents os c source_type t st))
                    = run_script_calls st @ calls
            \<and> map fst calls = map fst (acquire_scripts_to_run source_type)
            \<and> fst (stage_1_acquire_source_documents os c source_type t st)
                = Inr (list_all snd calls)"
  proof (cases "acquire_scripts_to_run source_type = []")
    case True
    then have "stage_1_acquire_source_documents os c source_type t st
        = (Inr True, logging (Warning_no_acquisition_scripts source_type)
                       (logging (Info_stage_banner 1 c source_type) st))"
      by (simp add: stage_1_acquire_source_documents_def investigation_found[OF assms])
    with True show ?thesis by simp
  next
    case False
    then have "stage_1_acquire_source_documents os c source_type t st
        = run_scripts os c t (acquire_scripts_to_run source_type) True
            (logging (Info_stage_banner 1 c source_type) st)"
      by (simp add: stage_1_acquire_source_documents_def investigation_found[OF assms])
    then show ?thesis
      using run_scripts_calls[of os c t "acquire_scripts_to_run source_type" True
          "logging (Info_stage_banner 1 c source_type) st"] by simp
  qed
  show "\<exists>calls. run_script_calls (snd (stage_2_datashare_processing os c action t st))
                    = run_script_calls st @ calls
            \<and> map fst calls = map fst (datashare_actions_to_perform action)
            \<and> fst (stage_2_datashare_processing os c action t st)
                = Inr (list_all snd calls)"
  proof (cases "datashare_actions_to_perform action = []")
    case True
    then have "stage_2_datashare_processing os c action t st
        = (Inr True, logging (Warning_no_datashare_actions action)
                       (logging (Info_stage_banner 2 c action) st))"
      by (simp add: stage_2_datashare_processing_def investigation_found[OF assms])
    with True show ?thesis by simp
  next
    case False
    then have "stage_2_datashare_processing os c action t st
        = run_scripts os c t (datashare_actions_to_perform action) True
            (logging (Info_stage_banner 2 c action) st)"
      by (simp add: stage_2_datashare_processing_def investigation_found[OF assms])
    then show ?thesis
      using run_scripts_calls[of os c t "datashare_actions_to_perform action" True
          "logging (Info_stage_banner 2 c action) st"] by simp
  qed
qed

lemma failing_run_scripts:
  "run_script_calls (snd (run_scripts failing_os c t ivs ok st))
      = run_script_calls st @ map (\<lambda>iv. (fst iv, False)) ivs
   \<and> fst (run_scripts failing_os c t ivs ok st) = Inr (ok \<and> ivs = [])"
proof (induction ivs arbitrary: ok st)
  case Nil
  then show ?case by simp
next
  case (Cons iv ivs)
  obtain r st1 where tr: "try_run_script failing_os c t iv ok st = (r, st1)"
    by (cases "try_run_script failing_os c t iv ok st")
  from failing_try_run_script[of c t iv ok st] tr
  have r: "r = Inr False" and c1: "run_script_calls st1 = run_script_calls st @ [(fst iv, False)]"
    by simp_all
  have "run_scripts failing_os c t (iv # ivs) ok st = run_scripts failing_os c t ivs False st1"
    using tr r by simp
  then show ?case using Cons.IH[of False st1] c1 by simp
qed

theorem scripts_within_a_stage_witness:
  "run_script_calls (snd (run_scripts failing_os ''case1'' 7200
       [(''first.py'', []), (''second.sh'', [''-v''])] True (initial_state ())))
     = [(''first.py'', False), (''second.sh'', False)]
   \<and> fst (run_scripts failing_os ''case1'' 7200
       [(''first.py'', []), (''second.sh'', [''-v''])] True (initial_state ())) = Inr False
   \<and> fst (stage_1_acquire_source_documents failing_os ''case1'' (Some ''corporate'') 7200
       (initial_state ())) = Inr True"
proof -
  let ?ivs = "[(''first.py'', []), (''second.sh'', [''-v''])]"
  note t = scripts_within_a_stage[OF valid_case1 case1_directory(1)]
  from t[of 7200 ?ivs] obtain calls where
    1: "run_script_calls (snd (run_scripts failing_os ''case1'' 7200 ?ivs True (initial_state ())))
          = calls"
    and 2: "fst (run_scripts failing_os ''case1'' 7200 ?ivs True (initial_state ()))
          = Inr (list_all snd calls)"
    by auto
  from failing_run_scripts[of "''case1''" 7200 ?ivs True "initial_state ()"]
  have 3: "run_script_calls (snd (run_scripts failing_os ''case1'' 7200 ?ivs True
      (initial_state ()))) = [(''first.py'', False), (''second.sh'', False)]"
    by simp
  from 1 3 have calls: "calls = [(''first.py'', False), (''second.sh'', False)]" by simp
  have empty: "acquire_scripts_to_run (Some ''corporate'') = []"
    by (simp add: acquire_scripts_to_run_def)
  from t[of 7200 "[]" "Some ''corporate''"] obtain calls1 where
    "map fst calls1 = map fst (acquire_scripts_to_run (Some ''corporate''))"
    and "fst (stage_1_acquire_source_documents failing_os ''case1'' (Some ''corporate'') 7200
       (initial_state ())) = Inr (list_all snd calls1)"
    by blast
  then have 4: "fst (stage_1_acquire_source_documents failing_os ''case1'' (Some ''corporate'') 7200
       (initial_state ())) = Inr True"
    unfolding empty by simp
  from 2 3 4 show ?thesis unfolding calls by simp
qed

section \<open>The first failure, and the run in which no stage fails\<close>

lemma run_stages_append:
  "run_stages os a (xs @ ys) ok st =
     run_stages os a ys (fst (run_stages os a xs ok st)) (snd (run_stages os a xs ok st))"
proof (induction xs arbitrary: ok st)
  case Nil
  show ?case by simp
next
  case (Cons x xs)
  show ?case
  proof (cases "\<not> ok \<and> x \<noteq> ''setup''")
    case True
    then show ?thesis using Cons.IH by simp
  next
    case False
    obtain r st1 where run: "run_stage os a x (logging (Info_starting_stage x) st) = (r, st1)"
      by (cases "run_stage os a x (logging (Info_starting_stage x) st)")
    show ?thesis
    proof (cases r)
      case (Inl e)
      with False run show ?thesis using Cons.IH by auto
    next
      case (Inr b)
      with False run show ?thesis using Cons.IH by (cases b) auto
    qed
  qed
qed

lemma run_stages_failing_head:
  assumes "ok \<or> s = ''setup''"
    and "fst (run_stage os a s (logging (Info_starting_stage s) st)) \<noteq> Inr True"
  shows "\<exists>l. run_stages os a (s # post) ok st =
           run_stages os a post False
             (logging l (snd (run_stage os a s (logging (Info_starting_stage s) st))))
         \<and> stage_record l = [(s, Failed)] \<and> stage_banner l = []"
proof -
  obtain r st1 where run: "run_stage os a s (logging (Info_starting_stage s) st) = (r, st1)"
    by (cases "run_stage os a s (logging (Info_starting_stage s) st)")
  from assms(1) have att: "\<not> (\<not> ok \<and> s \<noteq> ''setup'')" by blast
  show ?thesis
  proof (cases r)
    case (Inl e)
    with att run have "run_stages os a (s # post) ok st =
        run_stages os a post False (logging (Error_stage_failed s e) st1)" by auto
    with run show ?thesis by (intro exI[of _ "Error_stage_failed s e"]) simp
  next
    case (Inr b)
    with assms(2) run have "\<not> b" by auto
    with Inr att run have "run_stages os a (s # post) ok st =
        run_stages os a post False
          (logging (Error_stage_failed s (StageError (Reported_failure s))) st1)" by auto
    with run show ?thesis
      by (intro exI[of _ "Error_stage_failed s (StageError (Reported_failure s))"]) simp
  qed
qed

lemma run_stages_all_succeed:
  assumes "I (world st)"
    and "\<And>q st. q \<in> set stages \<Longrightarrow> I (world st) \<Longrightarrow>
           fst (run_stage os a q st) = Inr True \<and> I (world (snd (run_stage os a q st)))"
    and "set stages \<subseteq> set known_stages"
  shows "fst (run_stages os a stages True st)
    \<and> I (world (snd (run_stages os a stages True st)))
    \<and> stage_records (log_lines (snd (run_stages os a stages True st)))
         = stage_records (log_lines st) @ map (\<lambda>q. (q, Succeeded)) stages
    \<and> stage_functions_called (log_lines (snd (run_stages os a stages True st)))
         = stage_functions_called (log_lines st) @ map stage_function stages"
  using assms
proof (induction stages arbitrary: st)
  case Nil
  then show ?case by simp
next
  case (Cons q stages)
  let ?st0 = "logging (Info_starting_stage q) st"
  obtain r st1 where run: "run_stage os a q ?st0 = (r, st1)"
    by (cases "run_stage os a q ?st0")
  have "I (world ?st0)" using Cons.prems(1) by simp
  from Cons.prems(2)[OF _ this, of q] run have r: "r = Inr True" and I1: "I (world st1)"
    by simp_all
  have q: "q \<in> set [''setup'', ''acquire'', ''datashare'', ''parse'', ''analyze'', ''package'']"
    using Cons.prems(3) unfolding known_stages_def by simp
  have rec1: "stage_records (log_lines st1) = stage_records (log_lines st)"
    using run_stage_frame_records[OF run] by simp
  have call1: "stage_functions_called (log_lines st1)
      = stage_functions_called (log_lines st) @ [stage_function q]"
    using run_stage_frame_called[OF run q] by simp
  let ?st2 = "logging (Info_stage_completed q) st1"
  have step: "run_stages os a (q # stages) True st = run_stages os a stages True ?st2"
    using run r by simp
  have I2: "I (world ?st2)" using I1 by simp
  have sub: "set stages \<subseteq> set known_stages" using Cons.prems(3) by simp
  have hyp: "\<And>q st. q \<in> set stages \<Longrightarrow> I (world st) \<Longrightarrow>
           fst (run_stage os a q st) = Inr True \<and> I (world (snd (run_stage os a q st)))"
    using Cons.prems(2) by simp
  from Cons.IH[OF I2 hyp sub] show ?case
    unfolding step using rec1 call1 by simp
qed

lemma flag_down_only_setup:
  assumes "\<forall>q\<in>set rs. if fst q = ''setup'' then snd q \<noteq> Skipped else snd q = Skipped"
  shows "map fst (filter (\<lambda>r. snd r \<noteq> Skipped) rs) = filter (\<lambda>q. q = ''setup'') (map fst rs)"
  using assms by (induction rs) (auto split: if_splits)

lemma run_stages_first_failure:
  assumes "I (world st)"
    and "\<And>q st. q \<in> set pre \<Longrightarrow> I (world st) \<Longrightarrow>
           fst (run_stage os a q st) = Inr True \<and> I (world (snd (run_stage os a q st)))"
    and "\<And>st. I (world st) \<Longrightarrow> fst (run_stage os a s st) \<noteq> Inr True"
    and "set (pre @ s # post) \<subseteq> set known_stages"
  shows "\<not> fst (run_stages os a (pre @ s # post) True st)
    \<and> (\<exists>rest. stage_records (log_lines (snd (run_stages os a (pre @ s # post) True st)))
           = stage_records (log_lines st) @ map (\<lambda>q. (q, Succeeded)) pre @ (s, Failed) # rest
         \<and> map fst rest = post
         \<and> (\<forall>q\<in>set rest. if fst q = ''setup'' then snd q \<noteq> Skipped else snd q = Skipped))
    \<and> stage_functions_called (log_lines (snd (run_stages os a (pre @ s # post) True st)))
         = stage_functions_called (log_lines st) @ map stage_function pre
            @ stage_function s # map stage_function (filter (\<lambda>q. q = ''setup'') post)"
proof -
  let ?st1 = "snd (run_stages os a pre True st)"
  have kpre: "set pre \<subseteq> set known_stages" and ks: "s \<in> set known_stages"
    and kpost: "set post \<subseteq> set known_stages"
    using assms(4) by simp_all
  from run_stages_all_succeed[of I st pre os a, OF assms(1) assms(2) kpre]
  have ok1: "fst (run_stages os a pre True st)" and I1: "I (world ?st1)"
    and rec1: "stage_records (log_lines ?st1)
         = stage_records (log_lines st) @ map (\<lambda>q. (q, Succeeded)) pre"
    and call1: "stage_functions_called (log_lines ?st1)
         = stage_functions_called (log_lines st) @ map stage_function pre"
    by blast+
  have split: "run_stages os a (pre @ s # post) True st = run_stages os a (s # post) True ?st1"
    using run_stages_append[of os a pre "s # post" True st] ok1 by simp
  let ?st0 = "logging (Info_starting_stage s) ?st1"
  let ?st2 = "snd (run_stage os a s ?st0)"
  have "I (world ?st0)" using I1 by simp
  then have fails: "fst (run_stage os a s ?st0) \<noteq> Inr True" by (rule assms(3))
  from run_stages_failing_head[of True s os a ?st1 post, OF _ fails] obtain l where
    head: "run_stages os a (s # post) True ?st1 = run_stages os a post False (logging l ?st2)"
    and l: "stage_record l = [(s, Failed)]" "stage_banner l = []" by blast
  have run: "run_stage os a s ?st0 = (fst (run_stage os a s ?st0), ?st2)" by simp
  have s6: "s \<in> set [''setup'', ''acquire'', ''datashare'', ''parse'', ''analyze'', ''package'']"
    using ks unfolding known_stages_def .
  have rec2: "stage_records (log_lines ?st2) = stage_records (log_lines ?st1)"
    using run_stage_frame_records[OF run] by simp
  have call2: "stage_functions_called (log_lines ?st2)
      = stage_functions_called (log_lines ?st1) @ [stage_function s]"
    using run_stage_frame_called[OF run s6] by simp
  obtain ok' st' where fin: "run_stages os a post False (logging l ?st2) = (ok', st')"
    by (cases "run_stages os a post False (logging l ?st2)")
  from run_stages_spec[OF fin] kpost obtain rest where
    r1: "stage_records (log_lines st') = stage_records (log_lines (logging l ?st2)) @ rest"
    and r2: "map fst rest = post" and r3: "skip_policy False rest"
    and r4: "ok' \<longleftrightarrow> False \<and> list_all (\<lambda>r. snd r = Succeeded) rest"
    and r5: "stage_functions_called (log_lines st') =
            stage_functions_called (log_lines (logging l ?st2))
              @ map stage_function (map fst (filter (\<lambda>r. snd r \<noteq> Skipped) rest))"
    by blast
  have pol: "\<forall>q\<in>set rest. if fst q = ''setup'' then snd q \<noteq> Skipped else snd q = Skipped"
    using skip_policy_flag_down[OF r3] by blast
  have whole: "run_stages os a (pre @ s # post) True st = (ok', st')"
    unfolding split head fin ..
  have a: "\<not> fst (run_stages os a (pre @ s # post) True st)"
    unfolding whole using r4 by simp
  have b: "stage_records (log_lines (snd (run_stages os a (pre @ s # post) True st)))
           = stage_records (log_lines st) @ map (\<lambda>q. (q, Succeeded)) pre @ (s, Failed) # rest"
    unfolding whole using r1 rec2 rec1 l by simp
  have c: "stage_functions_called (log_lines (snd (run_stages os a (pre @ s # post) True st)))
         = stage_functions_called (log_lines st) @ map stage_function pre
            @ stage_function s # map stage_function (filter (\<lambda>q. q = ''setup'') post)"
    unfolding whole using r5 call2 call1 l flag_down_only_setup[OF pol] r2 by simp
  from a b c r2 pol show ?thesis by blast
qed

lemma main_unfold:
  assumes "validate_case_name (case_name a) = Inr True"
  shows "\<exists>st1. world st1 = w \<and> stage_records (log_lines st1) = []
     \<and> stage_functions_called (log_lines st1) = []
     \<and> fst (main os a (initial_state w))
          = (if fst (run_stages os a (stages_to_run_ordered (stage a)) True st1) then 0 else 1)
     \<and> stage_records (log_lines (snd (main os a (initial_state w))))
          = stage_records (log_lines (snd (run_stages os a (stages_to_run_ordered (stage a)) True st1)))
     \<and> stage_functions_called (log_lines (snd (main os a (initial_state w))))
          = stage_functions_called
              (log_lines (snd (run_stages os a (stages_to_run_ordered (stage a)) True st1)))"
proof -
  define st1 where "st1 = logging_if (''all'' \<in> set (stage a)) Info_processing_all
     (logging Info_separator
                  (logging (Info_global_timeout (script_timeout a))
                     (logging (Info_requested_stages (stage a))
                        (logging (Info_initializing (case_name a))
                           (logging Info_separator (initial_state w))))))"
  let ?R = "run_stages os a (stages_to_run_ordered (stage a)) True st1"
  have m: "main os a (initial_state w) =
      (if fst ?R then (0, logging Info_separator
                           (logging (Info_workflow_succeeded (case_name a))
                              (logging Info_separator (snd ?R))))
       else (1, logging Error_review_log_file
                           (logging (Error_workflow_failed (case_name a))
                              (logging Info_separator (snd ?R)))))"
    using assms unfolding main_def st1_def by (simp add: Let_def split_beta)
  have "world st1 = w" "stage_records (log_lines st1) = []"
    "stage_functions_called (log_lines st1) = []"
    by (simp_all add: st1_def)
  moreover have "fst (main os a (initial_state w)) = (if fst ?R then 0 else 1)"
    unfolding m by simp
  moreover have "stage_records (log_lines (snd (main os a (initial_state w))))
          = stage_records (log_lines (snd ?R))"
    unfolding m by simp
  moreover have "stage_functions_called (log_lines (snd (main os a (initial_state w))))
          = stage_functions_called (log_lines (snd ?R))"
    unfolding m by simp
  ultimately show ?thesis by (intro exI[of _ st1]) simp
qed

text \<open>
  C3. In every run with a valid case name. (1) Let the stages before \<open>s\<close> succeed and
  the stage function of \<open>s\<close> not return \<open>True\<close> (it returns \<open>False\<close> or raises),
  on every world the run can be in (\<open>I\<close> holds of the first world and is kept by the
  stages that succeed). Then \<open>s\<close> is recorded as failed, every later stage other than
  \<^verbatim>\<open>setup\<close> is recorded as skipped and its stage function is not called, every later
  \<^verbatim>\<open>setup\<close> is attempted, and the exit code is 1. (2) When the requested stages are
  \<^verbatim>\<open>acquire\<close> then \<^verbatim>\<open>parse\<close> and the stage function of \<^verbatim>\<open>acquire\<close> does not
  return \<open>True\<close>, \<^verbatim>\<open>parse\<close> is recorded as skipped, only the stage function of
  \<^verbatim>\<open>acquire\<close> is called, and the exit code is 1. (3) After any record of a failed
  stage, the later records are skipped for every stage but \<^verbatim>\<open>setup\<close>, which is never
  skipped. (4) The stage functions called are exactly those of the stages not recorded
  as skipped, in order.
\<close>

theorem skip_after_failure:
  assumes "validate_case_name (case_name a) = Inr True"
    and "set (stage a) \<subseteq> set stage_choices"
  shows "(\<forall>I pre s post.
            stages_to_run_ordered (stage a) = pre @ s # post \<and> I w
            \<and> (\<forall>q\<in>set pre. \<forall>st. I (world st) \<longrightarrow>
                  fst (run_stage os a q st) = Inr True \<and> I (world (snd (run_stage os a q st))))
            \<and> (\<forall>st. I (world st) \<longrightarrow> fst (run_stage os a s st) \<noteq> Inr True)
            \<longrightarrow> fst (main os a (initial_state w)) = 1
              \<and> (\<exists>rest. stage_records (log_lines (snd (main os a (initial_state w))))
                          = map (\<lambda>q. (q, Succeeded)) pre @ (s, Failed) # rest
                    \<and> map fst rest = post
                    \<and> (\<forall>q\<in>set rest. if fst q = ''setup'' then snd q \<noteq> Skipped
                                      else snd q = Skipped))
              \<and> stage_functions_called (log_lines (snd (main os a (initial_state w))))
                  = map stage_function pre
                     @ stage_function s # map stage_function (filter (\<lambda>q. q = ''setup'') post))
    \<and> (stage a = [''acquire'', ''parse'']
         \<and> (\<forall>st. world st = w \<longrightarrow>
               fst (stage_1_acquire_source_documents os (case_name a) (acquire_type a)
                      (script_timeout a) st) \<noteq> Inr True)
        \<longrightarrow> stage_records (log_lines (snd (main os a (initial_state w))))
              = [(''acquire'', Failed), (''parse'', Skipped)]
            \<and> stage_functions_called (log_lines (snd (main os a (initial_state w)))) = [1]
            \<and> fst (main os a (initial_state w)) = 1)
    \<and> (\<forall>pre r post q.
            stage_records (log_lines (snd (main os a (initial_state w)))) = pre @ r # post
            \<and> snd r = Failed \<and> q \<in> set post
            \<longrightarrow> (if fst q = ''setup'' then snd q \<noteq> Skipped else snd q = Skipped))
    \<and> stage_functions_called (log_lines (snd (main os a (initial_state w))))
        = map stage_function (map fst (filter (\<lambda>r. snd r \<noteq> Skipped)
            (stage_records (log_lines (snd (main os a (initial_state w)))))))"
proof -
  let ?rs = "stage_records (log_lines (snd (main os a (initial_state w))))"
  let ?called = "stage_functions_called (log_lines (snd (main os a (initial_state w))))"
  let ?exit = "fst (main os a (initial_state w))"
  note known = stages_to_run_ordered_known[OF assms(2)]
  have first: "?exit = 1
      \<and> (\<exists>rest. ?rs = map (\<lambda>q. (q, Succeeded)) pre @ (s, Failed) # rest
            \<and> map fst rest = post
            \<and> (\<forall>q\<in>set rest. if fst q = ''setup'' then snd q \<noteq> Skipped else snd q = Skipped))
      \<and> ?called = map stage_function pre
                     @ stage_function s # map stage_function (filter (\<lambda>q. q = ''setup'') post)"
    if h: "stages_to_run_ordered (stage a) = pre @ s # post \<and> I w
            \<and> (\<forall>q\<in>set pre. \<forall>st. I (world st) \<longrightarrow>
                  fst (run_stage os a q st) = Inr True \<and> I (world (snd (run_stage os a q st))))
            \<and> (\<forall>st. I (world st) \<longrightarrow> fst (run_stage os a s st) \<noteq> Inr True)"
    for I pre s post
  proof -
    from main_unfold[OF assms(1), of w os] obtain st1 where
      w1: "world st1 = w" and r1: "stage_records (log_lines st1) = []"
      and c1: "stage_functions_called (log_lines st1) = []"
      and e: "?exit = (if fst (run_stages os a (stages_to_run_ordered (stage a)) True st1)
                       then 0 else 1)"
      and r: "?rs = stage_records (log_lines (snd (run_stages os a
                      (stages_to_run_ordered (stage a)) True st1)))"
      and c: "?called = stage_functions_called (log_lines (snd (run_stages os a
                      (stages_to_run_ordered (stage a)) True st1)))"
      by blast
    from h have ord: "stages_to_run_ordered (stage a) = pre @ s # post" by blast
    have I1: "I (world st1)" using h w1 by simp
    have pre: "\<And>q st. q \<in> set pre \<Longrightarrow> I (world st) \<Longrightarrow>
           fst (run_stage os a q st) = Inr True \<and> I (world (snd (run_stage os a q st)))"
      using h by blast
    have fails: "\<And>st. I (world st) \<Longrightarrow> fst (run_stage os a s st) \<noteq> Inr True"
      using h by blast
    have k: "set (pre @ s # post) \<subseteq> set known_stages" using known unfolding ord .
    from run_stages_first_failure[of I st1 pre os a s post, OF I1 pre fails k]
    show ?thesis unfolding e r c ord r1 c1 by simp
  qed
  have example: "?rs = [(''acquire'', Failed), (''parse'', Skipped)] \<and> ?called = [1] \<and> ?exit = 1"
    if h: "stage a = [''acquire'', ''parse'']
         \<and> (\<forall>st. world st = w \<longrightarrow>
               fst (stage_1_acquire_source_documents os (case_name a) (acquire_type a)
                      (script_timeout a) st) \<noteq> Inr True)"
  proof -
    have ord: "stages_to_run_ordered (stage a) = [] @ ''acquire'' # [''parse'']"
      using h by (simp add: not_all_two)
    have "stages_to_run_ordered (stage a) = [] @ ''acquire'' # [''parse''] \<and> (\<lambda>w'. w' = w) w
            \<and> (\<forall>q\<in>set []. \<forall>st. (\<lambda>w'. w' = w) (world st) \<longrightarrow>
                  fst (run_stage os a q st) = Inr True
                  \<and> (\<lambda>w'. w' = w) (world (snd (run_stage os a q st))))
            \<and> (\<forall>st. (\<lambda>w'. w' = w) (world st) \<longrightarrow> fst (run_stage os a ''acquire'' st) \<noteq> Inr True)"
      using h ord by (simp add: run_stage_simps)
    from first[OF this] obtain rest where
      e: "?exit = 1" and r: "?rs = (''acquire'', Failed) # rest"
      and m: "map fst rest = [''parse'']"
      and p: "\<forall>q\<in>set rest. if fst q = ''setup'' then snd q \<noteq> Skipped else snd q = Skipped"
      and c: "?called = [stage_function ''acquire'']"
      by auto
    from m obtain x where rest: "rest = [(''parse'', x)]"
      by (auto simp: map_eq_Cons_conv)
    from p have "x = Skipped" unfolding rest by simp
    with e r c rest show ?thesis by (simp add: stage_function_simps)
  qed
  note run = main_run[OF assms(1), of os w]
  from run have pol: "skip_policy True ?rs" by blast
  have records: "if fst q = ''setup'' then snd q \<noteq> Skipped else snd q = Skipped"
    if "?rs = pre @ r # post \<and> snd r = Failed \<and> q \<in> set post" for pre r post q
  proof -
    from that pol have "skip_policy True (pre @ r # post)" "snd r = Failed" "q \<in> set post"
      by simp_all
    then show ?thesis by (rule skip_policy_after_failure)
  qed
  from run known have called: "?called = map stage_function (map fst
      (filter (\<lambda>r. snd r \<noteq> Skipped) ?rs))" by blast
  show ?thesis
    apply (rule conjI)
     apply (intro allI impI)
     apply (erule first)
    apply (rule conjI)
     apply (rule impI)
     apply (erule example)
    apply (rule conjI)
     apply (intro allI impI)
     apply (erule records)
    apply (rule called)
    done
qed

lemma failing_acquire:
  "fst (stage_1_acquire_source_documents failing_os ''case1'' None t st) = Inr False"
proof -
  have dir: "os_path_isdir failing_os (os_path_join (INVESTIGATIONS_DIR failing_os) ''case1'')
      (world st)"
    by (simp add: failing_os_def)
  have scripts: "acquire_scripts_to_run None = [(''scraping/fetch_irs_990_forms.py'', [])]"
    by (simp add: acquire_scripts_to_run_def)
  have "stage_1_acquire_source_documents failing_os ''case1'' None t st
      = run_scripts failing_os ''case1'' t [(''scraping/fetch_irs_990_forms.py'', [])] True
          (logging (Info_stage_banner 1 ''case1'' None) st)"
    by (simp add: stage_1_acquire_source_documents_def investigation_found[OF valid_case1 dir]
        scripts)
  then show ?thesis
    using failing_run_scripts[of "''case1''" t "[(''scraping/fetch_irs_990_forms.py'', [])]" True
        "logging (Info_stage_banner 1 ''case1'' None) st"]
    by simp
qed

lemma failing_package:
  "fst (stage_5_package_for_review failing_os ''case1'' t st) = Inr True"
proof -
  have dir: "os_path_isdir failing_os (os_path_join (INVESTIGATIONS_DIR failing_os) ''case1'')
      (world st)"
    by (simp add: failing_os_def)
  show ?thesis
    by (simp add: stage_5_package_for_review_def investigation_found[OF valid_case1 dir])
qed

theorem skip_after_failure_witness:
  "stage_records (log_lines (snd (main failing_os (request ''case1'' [''acquire'', ''parse''])
      (initial_state ())))) = [(''acquire'', Failed), (''parse'', Skipped)]
   \<and> stage_functions_called (log_lines (snd (main failing_os
        (request ''case1'' [''acquire'', ''parse'']) (initial_state ())))) = [1]
   \<and> fst (main failing_os (request ''case1'' [''acquire'', ''parse'']) (initial_state ())) = 1
   \<and> stage_functions_called (log_lines (snd (main failing_os
        (request ''case1'' [''package'', ''acquire'', ''setup'', ''parse''])
        (initial_state ())))) = [5, 1, 0]
   \<and> fst (main failing_os (request ''case1'' [''package'', ''acquire'', ''setup'', ''parse''])
        (initial_state ())) = 1"
proof -
  let ?a = "request ''case1'' [''acquire'', ''parse'']"
  let ?b = "request ''case1'' [''package'', ''acquire'', ''setup'', ''parse'']"
  have a1: "validate_case_name (case_name ?a) = Inr True"
    and b1: "validate_case_name (case_name ?b) = Inr True"
    by (simp_all add: request_def valid_case1)
  have a2: "set (stage ?a) \<subseteq> set stage_choices" and b2: "set (stage ?b) \<subseteq> set stage_choices"
    by (simp_all add: request_def stage_choices_def)
  have a3: "stage ?a = [''acquire'', ''parse'']
         \<and> (\<forall>st. world st = () \<longrightarrow>
               fst (stage_1_acquire_source_documents failing_os (case_name ?a) (acquire_type ?a)
                      (script_timeout ?a) st) \<noteq> Inr True)"
    by (simp add: request_def failing_acquire)
  have b3: "stages_to_run_ordered (stage ?b) = [''package''] @ ''acquire'' # [''setup'', ''parse'']
            \<and> (\<lambda>w. True) ()
            \<and> (\<forall>q\<in>set [''package'']. \<forall>st. (\<lambda>w. True) (world st) \<longrightarrow>
                  fst (run_stage failing_os ?b q st) = Inr True
                  \<and> (\<lambda>w. True) (world (snd (run_stage failing_os ?b q st))))
            \<and> (\<forall>st. (\<lambda>w. True) (world st) \<longrightarrow>
                  fst (run_stage failing_os ?b ''acquire'' st) \<noteq> Inr True)"
    by (simp add: request_def stages_to_run_ordered_def run_stage_simps failing_acquire
        failing_package)
  from skip_after_failure[OF a1 a2, of "()" failing_os] a3
  have A: "stage_records (log_lines (snd (main failing_os ?a (initial_state ()))))
              = [(''acquire'', Failed), (''parse'', Skipped)]
            \<and> stage_functions_called (log_lines (snd (main failing_os ?a (initial_state ())))) = [1]
            \<and> fst (main failing_os ?a (initial_state ())) = 1"
    by blast
  from skip_after_failure[OF b1 b2, of "()" failing_os]
  have "\<forall>I pre s post.
            stages_to_run_ordered (stage ?b) = pre @ s # post \<and> I ()
            \<and> (\<forall>q\<in>set pre. \<forall>st. I (world st) \<longrightarrow>
                  fst (run_stage failing_os ?b q st) = Inr True
                  \<and> I (world (snd (run_stage failing_os ?b q st))))
            \<and> (\<forall>st. I (world st) \<longrightarrow> fst (run_stage failing_os ?b s st) \<noteq> Inr True)
            \<longrightarrow> fst (main failing_os ?b (initial_state ())) = 1
              \<and> (\<exists>rest. stage_records (log_lines (snd (main failing_os ?b (initial_state ()))))
                          = map (\<lambda>q. (q, Succeeded)) pre @ (s, Failed) # rest
                    \<and> map fst rest = post
                    \<and> (\<forall>q\<in>set rest. if fst q = ''setup'' then snd q \<noteq> Skipped
                                      else snd q = Skipped))
              \<and> stage_functions_called (log_lines (snd (main failing_os ?b (initial_state ()))))
                  = map stage_function pre
                     @ stage_function s # map stage_function (filter (\<lambda>q. q = ''setup'') post)"
    by (rule conjunct1)
  from this[rule_format, OF b3]
  have B: "fst (main failing_os ?b (initial_state ())) = 1
     \<and> stage_functions_called (log_lines (snd (main failing_os ?b (initial_state ()))))
         = [5, 1, 0]"
    by (simp add: stage_function_simps)
  from A B show ?thesis by simp
qed









end
